theory Spec2Isabelle
  imports Complex_Main "HOL-Library.Word"
begin

section \<open>Data model of par\_streamlines.h\<close>

text \<open>
  The C structs become records and the enum a datatype. The arrays a struct points to
  become lists. Two fields are renamed because Isabelle would otherwise confuse them with
  other names: the coordinates \<open>x\<close>, \<open>y\<close> of a position are \<open>pos_x\<close>, \<open>pos_y\<close>, and
  the fields \<open>num_vertices\<close>, \<open>closed\<close> of the spine list (the mesh has a \<open>num_vertices\<close>
  too) are \<open>spines_num_vertices\<close>, \<open>spines_closed\<close>.

  \<open>float\<close> and \<open>double\<close> are type parameters \<open>'f\<close> and \<open>'d\<close>. The arithmetic of the C
  compiler and of libm (\<open>sqrtf\<close>, \<open>acos\<close>, \<open>sin\<close>, the conversions) is not part of the
  repository; the model takes it as a parameter, the record \<open>float_ops\<close>, and every general
  theorem below holds for every choice of these operations, rounding ones included.
\<close>

type_synonym u16 = "16 word"
type_synonym u32 = "32 word"

record ('f, 'd) float_ops =
  f_add :: "'f \<Rightarrow> 'f \<Rightarrow> 'f"
  f_sub :: "'f \<Rightarrow> 'f \<Rightarrow> 'f"
  f_mul :: "'f \<Rightarrow> 'f \<Rightarrow> 'f"
  f_div :: "'f \<Rightarrow> 'f \<Rightarrow> 'f"
  f_neg :: "'f \<Rightarrow> 'f"
  f_sqrt :: "'f \<Rightarrow> 'f"
  f_of_int :: "int \<Rightarrow> 'f"
  d_of_f :: "'f \<Rightarrow> 'd"
  f_of_d :: "'d \<Rightarrow> 'f"
  d_sub :: "'d \<Rightarrow> 'd \<Rightarrow> 'd"
  d_mul :: "'d \<Rightarrow> 'd \<Rightarrow> 'd"
  d_div :: "'d \<Rightarrow> 'd \<Rightarrow> 'd"
  d_acos :: "'d \<Rightarrow> 'd"
  d_sin :: "'d \<Rightarrow> 'd"
  d_of_int :: "int \<Rightarrow> 'd"
  d_half :: "'d"
  d_pi :: "'d"

record 'f par_streamlines_position =
  pos_x :: "'f"
  pos_y :: "'f"

datatype par_streamlines_u_mode =
    PAR_U_MODE_NORMALIZED_DISTANCE
  | PAR_U_MODE_DISTANCE
  | PAR_U_MODE_SEGMENT_INDEX
  | PAR_U_MODE_SEGMENT_FRACTION

record 'f par_streamlines_annotation =
  u_along_curve :: "'f"
  v_across_curve :: "'f"
  spine_to_edge_x :: "'f"
  spine_to_edge_y :: "'f"

text \<open>
  The mesh. \<open>vertex_lengths\<close> lists the cells of that buffer which the call wrote, in
  order; the three other buffers are checked by the closing assertions to be written in
  full.
\<close>

record 'f par_streamlines_mesh =
  num_vertices :: u32
  num_triangles :: u32
  vertex_positions :: "'f par_streamlines_position list"
  vertex_annotations :: "'f par_streamlines_annotation list"
  vertex_lengths :: "'f list"
  triangle_indices :: "u32 list"

record 'f par_streamlines_config =
  thickness :: "'f"
  curves_level_of_detail :: u32
  streamlines_seed_spacing :: "'f"
  streamlines_seed_viewport :: "'f list"
  streamlines_num_frames :: u32
  wireframe :: bool
  u_mode :: par_streamlines_u_mode

record 'f par_streamlines_spine_list =
  spines_num_vertices :: u32
  num_spines :: u16
  vertices :: "'f par_streamlines_position list"
  spine_lengths :: "u16 list"
  spines_closed :: bool

text \<open>
  A failed \<open>assert\<close> aborts the program: \<open>AssertionFailed\<close>. A read past the end of an
  input array or a write past the cells reserved for an output buffer is undefined
  behaviour in C: \<open>OutOfBounds\<close>. So are the overflow of an \<open>int\<close>, \<open>SignedOverflow\<close>, and
  an access through a pointer that points to no object, \<open>BadPointer\<close>.
\<close>

datatype error = AssertionFailed | OutOfBounds | SignedOverflow | BadPointer

section \<open>The growable arrays (lines 135--167)\<close>

text \<open>
  A \<open>pa\<close> array is a pointer to cells that follow a header of two \<open>int\<close>, the capacity
  \<open>pa___m\<close> and the count \<open>pa___n\<close>. The model of the pointer keeps the header:
  \<open>Null\<close> is the null pointer, \<open>Array m n\<close> an array whose header holds \<open>m\<close> and \<open>n\<close>, and
  \<open>Bogus\<close> the address \<open>2 * sizeof(int)\<close> which \<open>pa___growf\<close> returns when \<open>realloc\<close>
  fails (line 166); it points to no array, and reading or writing its header is
  \<open>BadPointer\<close>. The cells are kept apart, in the record of the mesh.

  \<open>int\<close> has 32 bits, \<open>sizeof(int)\<close> is 4 and \<open>size_t\<close> has 64 bits. The conversion of a
  \<open>uint32_t\<close> to \<open>int\<close> keeps the bits (\<open>sint\<close>).
\<close>

datatype pa_array = Null | Bogus | Array int int

definition int_fits :: "int \<Rightarrow> bool" where
  "int_fits i \<longleftrightarrow> - 2147483648 \<le> i \<and> i \<le> 2147483647"

text \<open>Line 142.\<close>

definition pa_clear :: "pa_array \<Rightarrow> error + pa_array" where
  "pa_clear arr =
     (case arr of
        Null \<Rightarrow> Inr Null
      | Bogus \<Rightarrow> Inl BadPointer
      | Array m n \<Rightarrow> Inr (Array m 0))"

text \<open>
  Lines 152--167. \<open>realloc\<close> is not part of the repository; the model takes it as a
  parameter, as it takes the arithmetic: \<open>realloc heap arr size\<close> is \<open>None\<close> when the
  request for \<open>size\<close> bytes is refused and the heap after the call when it is granted.
  \<open>itemsize * m\<close> is an \<open>int\<close>; it is converted to \<open>size_t\<close> by the division by
  \<open>sizeof(int)\<close>, and \<open>PAR_REALLOC\<close> multiplies by \<open>sizeof(int)\<close> again.
\<close>

type_synonym 'h allocator = "'h \<Rightarrow> pa_array \<Rightarrow> 64 word \<Rightarrow> 'h option"

definition pa___growf :: "'h allocator \<Rightarrow> 'h \<Rightarrow> pa_array \<Rightarrow> int \<Rightarrow> int \<Rightarrow>
    error + pa_array \<times> 'h" where
  "pa___growf realloc heap arr increment itemsize =
     (case arr of
        Bogus \<Rightarrow> Inl BadPointer
      | _ \<Rightarrow>
          (let dbl_cur = (case arr of Array m n \<Rightarrow> 2 * m | _ \<Rightarrow> 0);
               min_needed = (case arr of Array m n \<Rightarrow> n | _ \<Rightarrow> 0) + increment;
               m = (if dbl_cur > min_needed then dbl_cur else min_needed)
           in if \<not> int_fits dbl_cur \<or> \<not> int_fits min_needed \<or> \<not> int_fits (itemsize * m)
              then Inl SignedOverflow
              else case realloc heap arr (4 * (word_of_int (itemsize * m) div 4 + 2)) of
                     Some heap' \<Rightarrow>
                       Inr (Array m (case arr of Array m' n \<Rightarrow> n | _ \<Rightarrow> 0), heap')
                   | None \<Rightarrow> Inr (Bogus, heap)))"

text \<open>Line 147. The sum and the comparison are made in \<open>unsigned\<close>, the type of \<open>n\<close>.\<close>

definition pa___needgrow :: "pa_array \<Rightarrow> u32 \<Rightarrow> bool" where
  "pa___needgrow a n =
     (case a of
        Array m k \<Rightarrow> (word_of_int k + n :: u32) \<ge> word_of_int m
      | _ \<Rightarrow> True)"

text \<open>Lines 139 and 148--150: \<open>pa_add\<close> for an array of cells of \<open>itemsize\<close> bytes.\<close>

definition pa_add :: "'h allocator \<Rightarrow> 'h \<Rightarrow> int \<Rightarrow> pa_array \<Rightarrow> u32 \<Rightarrow>
    error + pa_array \<times> 'h" where
  "pa_add realloc heap itemsize a n =
     (case a of
        Bogus \<Rightarrow> Inl BadPointer
      | _ \<Rightarrow>
          (case (if pa___needgrow a n then pa___growf realloc heap a (sint n) itemsize
                 else Inr (a, heap)) of
             Inl err \<Rightarrow> Inl err
           | Inr (a', heap') \<Rightarrow>
               (case a' of
                  Array m k \<Rightarrow> Inr (Array m (sint (word_of_int k + n :: u32)), heap')
                | _ \<Rightarrow> Inl BadPointer)))"

text \<open>The number of cells of an array: its capacity \<open>pa___m\<close>.\<close>

definition pa_capacity :: "pa_array \<Rightarrow> nat" where
  "pa_capacity a = (case a of Array m n \<Rightarrow> nat m | _ \<Rightarrow> 0)"

section \<open>Mesh sizing (lines 207--215)\<close>

text \<open>
  The first loop. \<open>k\<close> counts the spines still to visit and the list is the rest of
  \<open>spine_lengths\<close>. The two counters are \<open>uint32_t\<close> and wrap; \<open>2 * spine_length\<close> is
  computed in \<open>int\<close>, where it cannot overflow, and converted.
\<close>

fun mesh_sizing :: "bool \<Rightarrow> nat \<Rightarrow> u16 list \<Rightarrow> u32 \<times> u32 \<Rightarrow> error + u32 \<times> u32" where
  "mesh_sizing is_closed 0 ls acc = Inr acc"
| "mesh_sizing is_closed (Suc k) [] acc = Inl OutOfBounds"
| "mesh_sizing is_closed (Suc k) (spine_length # ls) (nv, nt) =
     (if 1 < unat spine_length
      then mesh_sizing is_closed k ls
             (nv + word_of_nat (2 * unat spine_length) + (if is_closed then 2 else 0),
              nt + word_of_nat (2 * (unat spine_length - 1)) + (if is_closed then 2 else 0))
      else Inl AssertionFailed)"

section \<open>One spine (lines 236--504)\<close>

text \<open>Lines 237--241, repeated at 250--254, 299--303 and 364--368: the length of the
  segment from \<open>p\<close> to \<open>q\<close> and its normal.\<close>

definition segment_length :: "('f, 'd) float_ops \<Rightarrow> 'f par_streamlines_position \<Rightarrow>
    'f par_streamlines_position \<Rightarrow> 'f" where
  "segment_length ops p q =
     (let dx = f_sub ops (pos_x q) (pos_x p);
          dy = f_sub ops (pos_y q) (pos_y p)
      in f_sqrt ops (f_add ops (f_mul ops dx dx) (f_mul ops dy dy)))"

definition segment_normal :: "('f, 'd) float_ops \<Rightarrow> 'f par_streamlines_position \<Rightarrow>
    'f par_streamlines_position \<Rightarrow> 'f \<times> 'f" where
  "segment_normal ops p q =
     (let dx = f_sub ops (pos_x q) (pos_x p);
          dy = f_sub ops (pos_y q) (pos_y p)
      in (f_div ops (f_neg ops dy) (segment_length ops p q),
          f_div ops dx (segment_length ops p q)))"

text \<open>Lines 246--247 and 360--361: the offset of an open end, \<open>n * thickness / 2\<close>.\<close>

definition cap_offset :: "('f, 'd) float_ops \<Rightarrow> 'f \<Rightarrow> 'f \<times> 'f \<Rightarrow> 'f \<times> 'f" where
  "cap_offset ops t n =
     (f_div ops (f_mul ops (fst n) t) (f_of_int ops 2),
      f_div ops (f_mul ops (snd n) t) (f_of_int ops 2))"

text \<open>Lines 257--265, repeated at 306--314 and 371--379: the miter offset between the
  previous normal \<open>pn\<close> and the normal \<open>n\<close>. \<open>acos\<close>, \<open>sin\<close> and the expressions around
  them are computed in \<open>double\<close> and stored in \<open>float\<close> variables.\<close>

definition miter_offset :: "('f, 'd) float_ops \<Rightarrow> 'f \<Rightarrow> 'f \<times> 'f \<Rightarrow> 'f \<times> 'f \<Rightarrow> 'f \<times> 'f" where
  "miter_offset ops t pn n =
     (let phi = f_of_d ops (d_div ops
                  (d_acos ops (d_of_f ops
                     (f_add ops (f_mul ops (fst pn) (fst n)) (f_mul ops (snd pn) (snd n)))))
                  (d_of_int ops 2));
          theta = f_of_d ops (d_sub ops (d_div ops (d_pi ops) (d_of_int ops 2)) (d_of_f ops phi));
          extent = f_of_d ops (d_div ops (d_mul ops (d_half ops) (d_of_f ops t))
                                          (d_sin ops (d_of_f ops theta)));
          ex = f_add ops (fst pn) (fst n);
          ey = f_add ops (snd pn) (snd n);
          invlen = f_div ops (f_of_int ops 1)
                     (f_sqrt ops (f_add ops (f_mul ops ex ex) (f_mul ops ey ey)))
      in (f_mul ops ex (f_mul ops invlen extent), f_mul ops ey (f_mul ops invlen extent)))"

text \<open>Lines 268--271 (and 316--319, 382--385): the two boundary vertices of a spine vertex.\<close>

definition pair_positions :: "('f, 'd) float_ops \<Rightarrow> 'f par_streamlines_position \<Rightarrow> 'f \<times> 'f \<Rightarrow>
    'f par_streamlines_position list" where
  "pair_positions ops p e =
     [\<lparr>pos_x = f_add ops (pos_x p) (fst e), pos_y = f_add ops (pos_y p) (snd e)\<rparr>,
      \<lparr>pos_x = f_sub ops (pos_x p) (fst e), pos_y = f_sub ops (pos_y p) (snd e)\<rparr>]"

text \<open>Lines 284--291 (and 326--333, 392--399, 431--438): their two annotations.\<close>

definition pair_annotations :: "('f, 'd) float_ops \<Rightarrow> 'f \<Rightarrow> 'f \<times> 'f \<Rightarrow>
    'f par_streamlines_annotation list" where
  "pair_annotations ops u e =
     [\<lparr>u_along_curve = u, v_across_curve = f_of_int ops 1,
       spine_to_edge_x = fst e, spine_to_edge_y = snd e\<rparr>,
      \<lparr>u_along_curve = u, v_across_curve = f_of_int ops (- 1),
       spine_to_edge_x = f_neg ops (fst e), spine_to_edge_y = f_neg ops (snd e)\<rparr>]"

text \<open>Lines 337--357 (and 402--422, 442--462): the two triangles between the pairs
  \<open>segment_index - 1\<close> and \<open>segment_index\<close>. \<open>(segment_index - 1) * 2\<close> is computed in \<open>int\<close>
  and added to the \<open>uint32_t\<close> \<open>base_index\<close>.\<close>

definition quad_indices :: "bool \<Rightarrow> u32 \<Rightarrow> nat \<Rightarrow> u32 list" where
  "quad_indices wire base_index segment_index =
     (let a0 = base_index + word_of_nat ((segment_index - 1) * 2);
          a1 = base_index + word_of_nat ((segment_index - 1) * 2) + 1;
          b0 = base_index + word_of_nat (segment_index * 2);
          b1 = base_index + word_of_nat (segment_index * 2) + 1
      in if wire then [a0, a1, b0, a0, b0, a1, b1, b0]
         else [a0, a1, b0, b0, a1, b1])"

text \<open>
  The variables of the walk along one spine, and what it has written for this spine so
  far. \<open>src_position\<close> is always \<open>segment_index\<close> vertices past the start of the spine, so
  \<open>src_position[0]\<close> is \<open>src ! segment_index\<close>. \<open>segment_index\<close> is a \<open>uint16_t\<close> that
  stays below \<open>spine_length + 1\<close>; it cannot wrap, and is a \<open>nat\<close>.
\<close>

record 'f walk =
  pn :: "'f \<times> 'f"
  distance_along_spine :: "'f"
  segment_index :: nat
  dst_positions :: "'f par_streamlines_position list"
  dst_annotations :: "'f par_streamlines_annotation list"
  dst_indices :: "u32 list"

text \<open>Lines 299--357: the body of the loop over the interior vertices.\<close>

definition interior_step :: "('f, 'd) float_ops \<Rightarrow> 'f \<Rightarrow> bool \<Rightarrow> u32 \<Rightarrow>
    'f par_streamlines_position list \<Rightarrow> 'f walk \<Rightarrow> 'f walk" where
  "interior_step ops t wire base_index src w =
     (let i = segment_index w;
          n = segment_normal ops (src ! i) (src ! Suc i);
          e = miter_offset ops t (pn w) n
      in \<lparr>pn = n,
          distance_along_spine =
            f_add ops (distance_along_spine w) (segment_length ops (src ! i) (src ! Suc i)),
          segment_index = Suc i,
          dst_positions = dst_positions w @ pair_positions ops (src ! i) e,
          dst_annotations = dst_annotations w @ pair_annotations ops (distance_along_spine w) e,
          dst_indices = dst_indices w @ quad_indices wire base_index i\<rparr>)"

text \<open>Line 297: \<open>for (; segment_index < spine_length - 1; segment_index++)\<close>.\<close>

function interior_loop :: "('f, 'd) float_ops \<Rightarrow> 'f \<Rightarrow> bool \<Rightarrow> u32 \<Rightarrow> nat \<Rightarrow>
    'f par_streamlines_position list \<Rightarrow> 'f walk \<Rightarrow> 'f walk" where
  "interior_loop ops t wire base_index spine_length src w =
     (if Suc (segment_index w) < spine_length
      then interior_loop ops t wire base_index spine_length src
             (interior_step ops t wire base_index src w)
      else w)"
  by pat_completeness auto
termination
  by (relation "measure (\<lambda>(ops, t, wire, base_index, spine_length, src, w).
        spine_length - segment_index w)")
     (auto simp: interior_step_def Let_def)

text \<open>Lines 237--294: the first vertex of the spine. On a closed spine the previous
  normal is that of the segment from the last vertex back to the first.\<close>

definition first_offset :: "('f, 'd) float_ops \<Rightarrow> 'f \<Rightarrow> bool \<Rightarrow> nat \<Rightarrow>
    'f par_streamlines_position list \<Rightarrow> 'f \<times> 'f" where
  "first_offset ops t is_closed spine_length src =
     (if is_closed
      then miter_offset ops t (segment_normal ops (src ! (spine_length - 1)) (src ! 0))
             (segment_normal ops (src ! 0) (src ! 1))
      else cap_offset ops t (segment_normal ops (src ! 0) (src ! 1)))"

definition first_vertex :: "('f, 'd) float_ops \<Rightarrow> 'f \<Rightarrow> bool \<Rightarrow> nat \<Rightarrow>
    'f par_streamlines_position list \<Rightarrow> 'f walk" where
  "first_vertex ops t is_closed spine_length src =
     \<lparr>pn = segment_normal ops (src ! 0) (src ! 1),
      distance_along_spine = segment_length ops (src ! 0) (src ! 1),
      segment_index = 1,
      dst_positions = pair_positions ops (src ! 0) (first_offset ops t is_closed spine_length src),
      dst_annotations =
        pair_annotations ops (f_of_int ops 0) (first_offset ops t is_closed spine_length src),
      dst_indices = []\<rparr>"

text \<open>Lines 360--422: the last vertex of the spine. On a closed spine its normal is
  that of the segment from this vertex to the first one. Lines 389--390 store the normal
  of the first segment in \<open>pnx\<close>, \<open>pny\<close>, which are not read again.\<close>

definition last_offset :: "('f, 'd) float_ops \<Rightarrow> 'f \<Rightarrow> bool \<Rightarrow>
    'f par_streamlines_position list \<Rightarrow> 'f walk \<Rightarrow> 'f \<times> 'f" where
  "last_offset ops t is_closed src w =
     (if is_closed
      then miter_offset ops t (pn w) (segment_normal ops (src ! segment_index w) (src ! 0))
      else cap_offset ops t (pn w))"

definition last_vertex :: "('f, 'd) float_ops \<Rightarrow> bool \<Rightarrow> u32 \<Rightarrow>
    'f par_streamlines_position list \<Rightarrow> 'f \<times> 'f \<Rightarrow> 'f walk \<Rightarrow> 'f walk" where
  "last_vertex ops wire base_index src e w =
     \<lparr>pn = segment_normal ops (src ! 0) (src ! 1),
      distance_along_spine = distance_along_spine w,
      segment_index = segment_index w,
      dst_positions = dst_positions w @ pair_positions ops (src ! segment_index w) e,
      dst_annotations = dst_annotations w @ pair_annotations ops (distance_along_spine w) e,
      dst_indices = dst_indices w @ quad_indices wire base_index (segment_index w)\<rparr>"

text \<open>Lines 424--463: the seam of a closed spine. The positions are the copy
  \<open>first_dst_positions\<close> made at lines 276--279; \<open>ex\<close>, \<open>ey\<close> are still those of the last
  vertex; and \<open>segment_length\<close> at line 440 is the variable of line 239, the length of the
  first segment (the lengths computed at lines 252 and 366 are local to their blocks).\<close>

definition seam_pair :: "('f, 'd) float_ops \<Rightarrow> bool \<Rightarrow> u32 \<Rightarrow>
    'f par_streamlines_position list \<Rightarrow> 'f par_streamlines_position list \<Rightarrow> 'f \<times> 'f \<Rightarrow>
    'f walk \<Rightarrow> 'f walk" where
  "seam_pair ops wire base_index src first_dst_positions e w =
     \<lparr>pn = pn w,
      distance_along_spine =
        f_add ops (distance_along_spine w) (segment_length ops (src ! 0) (src ! 1)),
      segment_index = Suc (segment_index w),
      dst_positions = dst_positions w @ first_dst_positions,
      dst_annotations = dst_annotations w @ pair_annotations ops (distance_along_spine w) e,
      dst_indices = dst_indices w @ quad_indices wire base_index (Suc (segment_index w))\<rparr>"

text \<open>Lines 474--504: the second pass over the \<open>u\<close> coordinates. The code steps
  \<open>dst_annotations\<close> back by \<open>nverts * 2\<close> and rewrites \<open>nverts\<close> pairs, which are
  the last \<open>nverts * 2\<close> annotations written; \<open>rewrite_u\<close> walks them pair by pair, \<open>i\<close>
  being the loop counter.\<close>

fun rewrite_u :: "(nat \<Rightarrow> 'f \<Rightarrow> 'f) \<Rightarrow> nat \<Rightarrow> 'f par_streamlines_annotation list \<Rightarrow>
    'f par_streamlines_annotation list" where
  "rewrite_u g i (a # b # rest) =
     a\<lparr>u_along_curve := g i (u_along_curve a)\<rparr> #
     b\<lparr>u_along_curve := g i (u_along_curve b)\<rparr> # rewrite_u g (Suc i) rest"
| "rewrite_u g i rest = rest"

definition u_rule :: "('f, 'd) float_ops \<Rightarrow> par_streamlines_u_mode \<Rightarrow> 'f \<Rightarrow> u16 \<Rightarrow>
    nat \<Rightarrow> 'f \<Rightarrow> 'f" where
  "u_rule ops mode distance spine_length i u =
     (let invlength = f_div ops (f_of_int ops 1) distance;
          invcount = f_div ops (f_of_int ops 1) (f_of_int ops (uint spine_length))
      in case mode of
           PAR_U_MODE_DISTANCE \<Rightarrow> u
         | PAR_U_MODE_NORMALIZED_DISTANCE \<Rightarrow> f_mul ops u invlength
         | PAR_U_MODE_SEGMENT_INDEX \<Rightarrow> f_of_int ops (int i)
         | PAR_U_MODE_SEGMENT_FRACTION \<Rightarrow> f_mul ops invcount (f_of_int ops (int i)))"

definition fix_u :: "('f, 'd) float_ops \<Rightarrow> par_streamlines_u_mode \<Rightarrow> 'f \<Rightarrow> u16 \<Rightarrow> nat \<Rightarrow>
    'f par_streamlines_annotation list \<Rightarrow> 'f par_streamlines_annotation list" where
  "fix_u ops mode distance spine_length nverts as =
     (case mode of
        PAR_U_MODE_DISTANCE \<Rightarrow> as
      | _ \<Rightarrow> take (length as - nverts * 2) as @
             rewrite_u (u_rule ops mode distance spine_length) 0
               (drop (length as - nverts * 2) as))"

text \<open>What the call has written to the four output buffers.\<close>

record 'f buffers =
  out_positions :: "'f par_streamlines_position list"
  out_annotations :: "'f par_streamlines_annotation list"
  out_lengths :: "'f list"
  out_indices :: "u32 list"

text \<open>The body of the loop over the spines. \<open>nverts\<close> (line 467) is a \<open>uint16_t\<close>:
  the sum wraps to 0 for a closed spine of 65535 vertices.\<close>

definition draw_spine :: "('f, 'd) float_ops \<Rightarrow> 'f par_streamlines_config \<Rightarrow> bool \<Rightarrow> u32 \<Rightarrow>
    u16 \<Rightarrow> 'f par_streamlines_position list \<Rightarrow> 'f buffers" where
  "draw_spine ops cfg is_closed base_index spine_length src =
     (let n = unat spine_length;
          w0 = first_vertex ops (thickness cfg) is_closed n src;
          first_dst_positions = take 2 (dst_positions w0);
          w1 = interior_loop ops (thickness cfg) (wireframe cfg) base_index n src w0;
          e = last_offset ops (thickness cfg) is_closed src w1;
          w2 = last_vertex ops (wireframe cfg) base_index src e w1;
          w3 = (if is_closed
                then seam_pair ops (wireframe cfg) base_index src first_dst_positions e w2
                else w2);
          nverts = spine_length + (if is_closed then 1 else 0)
      in \<lparr>out_positions = dst_positions w3,
          out_annotations =
            fix_u ops (u_mode cfg) (distance_along_spine w3) spine_length (unat nverts)
              (dst_annotations w3),
          out_lengths = replicate (2 * unat nverts) (distance_along_spine w3),
          out_indices = dst_indices w3\<rparr>)"

section \<open>The whole call (lines 192--514)\<close>

text \<open>
  The context (lines 171--174). \<open>arrays\<close> holds the pointers to the four buffers of
  \<open>result\<close>, with their headers; the lists of \<open>result\<close> hold the cells that the last call
  wrote.
\<close>

record pa_arrays =
  lengths_array :: pa_array
  annotations_array :: pa_array
  positions_array :: pa_array
  indices_array :: pa_array

record 'f par_streamlines_context =
  config :: "'f par_streamlines_config"
  result :: "'f par_streamlines_mesh"
  arrays :: pa_arrays

text \<open>
  Lines 217--225: the four buffers are emptied, then grown by the number of vertices
  \<open>nv\<close> and by the number of indices \<open>ni\<close>. The cells are a \<open>float\<close> (4 bytes), an
  annotation (16 bytes), a position (8 bytes) and a \<open>uint32_t\<close> (4 bytes).
\<close>

definition reserve_buffers :: "'h allocator \<Rightarrow> 'h \<Rightarrow> pa_arrays \<Rightarrow>
    u32 \<Rightarrow> u32 \<Rightarrow> error + pa_arrays \<times> 'h" where
  "reserve_buffers realloc heap arrs nv ni =
     (case pa_clear (lengths_array arrs) of Inl err \<Rightarrow> Inl err | Inr l0 \<Rightarrow>
     (case pa_clear (annotations_array arrs) of Inl err \<Rightarrow> Inl err | Inr a0 \<Rightarrow>
     (case pa_clear (positions_array arrs) of Inl err \<Rightarrow> Inl err | Inr p0 \<Rightarrow>
     (case pa_clear (indices_array arrs) of Inl err \<Rightarrow> Inl err | Inr i0 \<Rightarrow>
     (case pa_add realloc heap 4 l0 nv of Inl err \<Rightarrow> Inl err | Inr (l1, heap1) \<Rightarrow>
     (case pa_add realloc heap1 16 a0 nv of Inl err \<Rightarrow> Inl err | Inr (a1, heap2) \<Rightarrow>
     (case pa_add realloc heap2 8 p0 nv of Inl err \<Rightarrow> Inl err | Inr (p1, heap3) \<Rightarrow>
     (case pa_add realloc heap3 4 i0 ni of Inl err \<Rightarrow> Inl err | Inr (i1, heap4) \<Rightarrow>
        Inr (\<lparr>lengths_array = l1, annotations_array = a1, positions_array = p1,
               indices_array = i1\<rparr>, heap4)))))))))"

definition append_buffers :: "'f buffers \<Rightarrow> 'f buffers \<Rightarrow> 'f buffers" where
  "append_buffers a b =
     \<lparr>out_positions = out_positions a @ out_positions b,
      out_annotations = out_annotations a @ out_annotations b,
      out_lengths = out_lengths a @ out_lengths b,
      out_indices = out_indices a @ out_indices b\<rparr>"

definition no_buffers :: "'f buffers" where
  "no_buffers = \<lparr>out_positions = [], out_annotations = [], out_lengths = [], out_indices = []\<rparr>"

text \<open>
  The second loop (lines 235--505). \<open>k\<close> counts the spines still to draw, \<open>src\<close> is what
  \<open>src_position\<close> points at, \<open>dst\<close> is what has been written, \<open>arrs\<close> are the four buffers
  as lines 222--225 left them. The spine reads \<open>src_position[0]\<close>, \<open>[1]\<close> and up to
  \<open>[spine_length - 1]\<close>, and writes each buffer from where the spine before stopped.
\<close>

fun spines_loop :: "('f, 'd) float_ops \<Rightarrow> 'f par_streamlines_config \<Rightarrow> bool \<Rightarrow> pa_arrays \<Rightarrow>
    nat \<Rightarrow> u16 list \<Rightarrow> 'f par_streamlines_position list \<Rightarrow> u32 \<Rightarrow> 'f buffers \<Rightarrow>
    error + 'f par_streamlines_position list \<times> 'f buffers" where
  "spines_loop ops cfg is_closed arrs 0 ls src base_index dst = Inr (src, dst)"
| "spines_loop ops cfg is_closed arrs (Suc k) [] src base_index dst = Inl OutOfBounds"
| "spines_loop ops cfg is_closed arrs (Suc k) (spine_length # ls) src base_index dst =
     (if length src < unat spine_length \<or> length src < 2 then Inl OutOfBounds
      else if pa_capacity (positions_array arrs) < length (out_positions dst) +
                length (out_positions (draw_spine ops cfg is_closed base_index spine_length src))
            \<or> pa_capacity (annotations_array arrs) < length (out_annotations dst) +
                length (out_annotations (draw_spine ops cfg is_closed base_index spine_length src))
            \<or> pa_capacity (lengths_array arrs) < length (out_lengths dst) +
                length (out_lengths (draw_spine ops cfg is_closed base_index spine_length src))
            \<or> pa_capacity (indices_array arrs) < length (out_indices dst) +
                length (out_indices (draw_spine ops cfg is_closed base_index spine_length src))
      then Inl OutOfBounds
      else spines_loop ops cfg is_closed arrs k ls (drop (unat spine_length) src)
             (base_index + word_of_nat (unat spine_length * 2 + (if is_closed then 2 else 0)))
             (append_buffers dst (draw_spine ops cfg is_closed base_index spine_length src)))"

text \<open>
  Lines 227--511: the second loop and the closing assertions, which compare pointer
  differences with the 32-bit counts \<open>nv\<close> and \<open>nt\<close> of the first loop.
\<close>

definition draw_spines :: "('f, 'd) float_ops \<Rightarrow> 'f par_streamlines_config \<Rightarrow> pa_arrays \<Rightarrow>
    'f par_streamlines_spine_list \<Rightarrow> u32 \<Rightarrow> u32 \<Rightarrow> error + 'f par_streamlines_mesh" where
  "draw_spines ops cfg arrs spines nv nt =
     (let ind_per_tri = (if wireframe cfg then 4 else 3 :: u32)
      in case spines_loop ops cfg (spines_closed spines) arrs (unat (num_spines spines))
                (spine_lengths spines) (vertices spines) 0 no_buffers of
           Inl err \<Rightarrow> Inl err
         | Inr (src, dst) \<Rightarrow>
             if length (vertices spines) - length src \<noteq> unat (spines_num_vertices spines)
             then Inl AssertionFailed
             else if length (out_annotations dst) \<noteq> unat nv then Inl AssertionFailed
             else if length (out_positions dst) \<noteq> unat nv then Inl AssertionFailed
             else if length (out_indices dst) \<noteq> unat (nt * ind_per_tri)
             then Inl AssertionFailed
             else Inr \<lparr>num_vertices = nv, num_triangles = nt,
                        vertex_positions = out_positions dst,
                        vertex_annotations = out_annotations dst,
                        vertex_lengths = out_lengths dst,
                        triangle_indices = out_indices dst\<rparr>)"

text \<open>
  \<open>par_streamlines_draw_lines\<close>. The C function returns the address of
  \<open>context->result\<close>; the model returns the context, whose \<open>result\<close> is the mesh, and the
  heap.
\<close>

definition par_streamlines_draw_lines :: "('f, 'd) float_ops \<Rightarrow>
    'h allocator \<Rightarrow> 'h \<Rightarrow> 'f par_streamlines_context \<Rightarrow>
    'f par_streamlines_spine_list \<Rightarrow> error + 'f par_streamlines_context \<times> 'h" where
  "par_streamlines_draw_lines ops realloc heap context spines =
     (let ind_per_tri = (if wireframe (config context) then 4 else 3 :: u32)
      in case mesh_sizing (spines_closed spines) (unat (num_spines spines))
                (spine_lengths spines) (0, 0) of
           Inl err \<Rightarrow> Inl err
         | Inr (nv, nt) \<Rightarrow>
             (case reserve_buffers realloc heap (arrays context) nv (ind_per_tri * nt) of
                Inl err \<Rightarrow> Inl err
              | Inr (arrs, heap') \<Rightarrow>
                  (case draw_spines ops (config context) arrs spines nv nt of
                     Inl err \<Rightarrow> Inl err
                   | Inr mesh \<Rightarrow> Inr (context\<lparr>result := mesh, arrays := arrs\<rparr>, heap'))))"

text \<open>Exact arithmetic on the reals. It serves only to run the model on the concrete
  inputs below; no general theorem depends on it.\<close>

definition real_ops :: "(real, real) float_ops" where
  "real_ops =
     \<lparr>f_add = (+), f_sub = (-), f_mul = (*), f_div = (/), f_neg = uminus, f_sqrt = sqrt,
      f_of_int = of_int, d_of_f = id, f_of_d = id, d_sub = (-), d_mul = (*), d_div = (/),
      d_acos = arccos, d_sin = sin, d_of_int = of_int, d_half = 1 / 2, d_pi = pi\<rparr>"

section \<open>Vocabulary of the properties\<close>

text \<open>The number of vertices and triangles a spine of \<open>spine_length\<close> vertices should
  give, and the number of indices per triangle.\<close>

definition spine_vertex_count :: "bool \<Rightarrow> u16 \<Rightarrow> nat" where
  "spine_vertex_count is_closed spine_length = 2 * unat spine_length + (if is_closed then 2 else 0)"

definition spine_triangle_count :: "bool \<Rightarrow> u16 \<Rightarrow> nat" where
  "spine_triangle_count is_closed spine_length =
     2 * (unat spine_length - 1) + (if is_closed then 2 else 0)"

definition indices_per_triangle :: "'f par_streamlines_config \<Rightarrow> nat" where
  "indices_per_triangle cfg = (if wireframe cfg then 4 else 3)"

definition total_vertices :: "bool \<Rightarrow> u16 list \<Rightarrow> nat" where
  "total_vertices is_closed ls = sum_list (map (spine_vertex_count is_closed) ls)"

definition total_triangles :: "bool \<Rightarrow> u16 list \<Rightarrow> nat" where
  "total_triangles is_closed ls = sum_list (map (spine_triangle_count is_closed) ls)"

text \<open>The spine lengths the call reads: the first \<open>num_spines\<close> entries of the array.\<close>

definition spines_read :: "'f par_streamlines_spine_list \<Rightarrow> u16 list" where
  "spines_read s = take (unat (num_spines s)) (spine_lengths s)"

text \<open>
  The preconditions of the call. \<open>spine_list_valid\<close>: every spine has more than one
  vertex and the lengths sum to \<open>num_vertices\<close>. \<open>arrays_as_declared\<close>: the two arrays
  hold at least as many elements as the struct declares. \<open>counts_fit\<close>: the vertex count
  and the index count of the mesh are below \<open>2 ^ 31\<close>, so that they fit the \<open>int\<close>
  parameter of \<open>pa___growf\<close>. \<open>context_valid\<close>: each buffer of the context is \<open>NULL\<close> or
  an array whose capacity is an \<open>int\<close> that is not negative, as \<open>pa___growf\<close> leaves it.
\<close>

definition spine_list_valid :: "'f par_streamlines_spine_list \<Rightarrow> bool" where
  "spine_list_valid s \<longleftrightarrow>
     list_all (\<lambda>n. 1 < unat n) (spines_read s) \<and>
     sum_list (map unat (spines_read s)) = unat (spines_num_vertices s)"

definition arrays_as_declared :: "'f par_streamlines_spine_list \<Rightarrow> bool" where
  "arrays_as_declared s \<longleftrightarrow>
     unat (num_spines s) \<le> length (spine_lengths s) \<and>
     unat (spines_num_vertices s) \<le> length (vertices s)"

definition counts_fit :: "'f par_streamlines_config \<Rightarrow> 'f par_streamlines_spine_list \<Rightarrow> bool" where
  "counts_fit cfg s \<longleftrightarrow>
     total_vertices (spines_closed s) (spines_read s) < 2 ^ 31 \<and>
     indices_per_triangle cfg * total_triangles (spines_closed s) (spines_read s) < 2 ^ 31"

definition pa_valid :: "pa_array \<Rightarrow> bool" where
  "pa_valid a =
     (case a of
        Null \<Rightarrow> True
      | Bogus \<Rightarrow> False
      | Array m n \<Rightarrow> 0 \<le> m \<and> m \<le> 2147483647)"

definition context_valid :: "'f par_streamlines_context \<Rightarrow> bool" where
  "context_valid c \<longleftrightarrow>
     pa_valid (lengths_array (arrays c)) \<and> pa_valid (annotations_array (arrays c)) \<and>
     pa_valid (positions_array (arrays c)) \<and> pa_valid (indices_array (arrays c))"

text \<open>
  The vertex count and the index count which the call passes to \<open>pa_add\<close> at lines
  222--225 when its counters have not wrapped.
\<close>

definition vertices_asked :: "'f par_streamlines_spine_list \<Rightarrow> u32" where
  "vertices_asked s = word_of_nat (total_vertices (spines_closed s) (spines_read s))"

definition indices_asked :: "'f par_streamlines_config \<Rightarrow> 'f par_streamlines_spine_list \<Rightarrow> u32" where
  "indices_asked cfg s =
     word_of_nat (indices_per_triangle cfg * total_triangles (spines_closed s) (spines_read s))"

text \<open>
  The context which \<open>par_streamlines_create_context\<close> (lines 176--182) returns for a
  configuration: \<open>calloc\<close> has zeroed the mesh, so the four buffers are \<open>NULL\<close>. And an
  allocator that grants every request, its heap having no state.
\<close>

definition fresh_context :: "'f par_streamlines_config \<Rightarrow> 'f par_streamlines_context" where
  "fresh_context cfg =
     \<lparr>config = cfg,
      result = \<lparr>num_vertices = 0, num_triangles = 0, vertex_positions = [],
                 vertex_annotations = [], vertex_lengths = [], triangle_indices = []\<rparr>,
      arrays = \<lparr>lengths_array = Null, annotations_array = Null, positions_array = Null,
                 indices_array = Null\<rparr>\<rparr>"

definition granting :: "unit allocator" where
  "granting heap arr bytes = Some heap"

section \<open>Concrete inputs\<close>

text \<open>The example of the header comment (lines 10--19), and a list of 1025 open spines of
  65535 vertices each.\<close>

definition example_config :: "real par_streamlines_config" where
  "example_config =
     \<lparr>thickness = 3, curves_level_of_detail = 0, streamlines_seed_spacing = 0,
      streamlines_seed_viewport = [0, 0, 0, 0], streamlines_num_frames = 0,
      wireframe = False, u_mode = PAR_U_MODE_NORMALIZED_DISTANCE\<rparr>"

definition example_spines :: "real par_streamlines_spine_list" where
  "example_spines =
     \<lparr>spines_num_vertices = 3, num_spines = 1,
      vertices = [\<lparr>pos_x = 0, pos_y = 0\<rparr>, \<lparr>pos_x = 2, pos_y = 1\<rparr>, \<lparr>pos_x = 4, pos_y = 0\<rparr>],
      spine_lengths = [3], spines_closed = False\<rparr>"

definition many_long_spines :: "real par_streamlines_spine_list" where
  "many_long_spines =
     \<lparr>spines_num_vertices = 67173375, num_spines = 1025,
      vertices = replicate 67173375 \<lparr>pos_x = 0, pos_y = 0\<rparr>,
      spine_lengths = replicate 1025 65535, spines_closed = False\<rparr>"

text \<open>A spine of one vertex; the example with a \<open>num_vertices\<close> that is too large (the
  array is long enough) and with one that is too small (the array has the two vertices
  declared); 1024 closed spines of 65535 vertices each.\<close>

definition short_spine :: "real par_streamlines_spine_list" where
  "short_spine =
     \<lparr>spines_num_vertices = 1, num_spines = 1, vertices = [\<lparr>pos_x = 0, pos_y = 0\<rparr>],
      spine_lengths = [1], spines_closed = False\<rparr>"

definition miscounted_spines :: "real par_streamlines_spine_list" where
  "miscounted_spines =
     \<lparr>spines_num_vertices = 4, num_spines = 1,
      vertices = [\<lparr>pos_x = 0, pos_y = 0\<rparr>, \<lparr>pos_x = 2, pos_y = 1\<rparr>, \<lparr>pos_x = 4, pos_y = 0\<rparr>,
                  \<lparr>pos_x = 6, pos_y = 1\<rparr>],
      spine_lengths = [3], spines_closed = False\<rparr>"

definition undercounted_spines :: "real par_streamlines_spine_list" where
  "undercounted_spines =
     \<lparr>spines_num_vertices = 2, num_spines = 1,
      vertices = [\<lparr>pos_x = 0, pos_y = 0\<rparr>, \<lparr>pos_x = 2, pos_y = 1\<rparr>],
      spine_lengths = [3], spines_closed = False\<rparr>"

definition wireframe_config :: "real par_streamlines_config" where
  "wireframe_config = example_config\<lparr>wireframe := True\<rparr>"

definition many_closed_spines :: "real par_streamlines_spine_list" where
  "many_closed_spines =
     \<lparr>spines_num_vertices = 67107840, num_spines = 1024,
      vertices = replicate 67107840 \<lparr>pos_x = 0, pos_y = 0\<rparr>,
      spine_lengths = replicate 1024 65535, spines_closed = True\<rparr>"

text \<open>The state of the walk along a spine when the loop over its interior vertices
  ends.\<close>

definition interior_walk :: "('f, 'd) float_ops \<Rightarrow> 'f par_streamlines_config \<Rightarrow> bool \<Rightarrow> u32 \<Rightarrow>
    u16 \<Rightarrow> 'f par_streamlines_position list \<Rightarrow> 'f walk" where
  "interior_walk ops cfg is_closed base_index spine_length src =
     interior_loop ops (thickness cfg) (wireframe cfg) base_index (unat spine_length) src
       (first_vertex ops (thickness cfg) is_closed (unat spine_length) src)"

text \<open>An index list made of 4-tuples whose 4th entry repeats the first.\<close>

fun tuples_closed :: "u32 list \<Rightarrow> bool" where
  "tuples_closed [] = True"
| "tuples_closed (a # b # c # d # rest) = (d = a \<and> tuples_closed rest)"
| "tuples_closed rest = False"

text \<open>
  Spine \<open>j\<close> of a list of spine lengths: the index of its first vertex in the input
  array, the index of its first vertex in the mesh, the index of its first entry in the
  index buffer, and what the call writes for it.
\<close>

definition spine_start :: "u16 list \<Rightarrow> nat \<Rightarrow> nat" where
  "spine_start ls j = sum_list (map unat (take j ls))"

definition spine_base :: "bool \<Rightarrow> u16 list \<Rightarrow> nat \<Rightarrow> nat" where
  "spine_base is_closed ls j = total_vertices is_closed (take j ls)"

definition spine_index_base :: "'f par_streamlines_config \<Rightarrow> bool \<Rightarrow> u16 list \<Rightarrow> nat \<Rightarrow> nat" where
  "spine_index_base cfg is_closed ls j =
     indices_per_triangle cfg * total_triangles is_closed (take j ls)"

definition spine_drawn :: "('f, 'd) float_ops \<Rightarrow> 'f par_streamlines_config \<Rightarrow>
    'f par_streamlines_spine_list \<Rightarrow> nat \<Rightarrow> 'f buffers" where
  "spine_drawn ops cfg s j =
     draw_spine ops cfg (spines_closed s)
       (word_of_nat (spine_base (spines_closed s) (spines_read s) j))
       (spines_read s ! j) (drop (spine_start (spines_read s) j) (vertices s))"

text \<open>The header's example as a closed spine.\<close>

definition closed_example_spines :: "real par_streamlines_spine_list" where
  "closed_example_spines = example_spines\<lparr>spines_closed := True\<rparr>"

text \<open>A closed right triangle with sides 3, 4 and 5.\<close>

definition right_triangle :: "real par_streamlines_spine_list" where
  "right_triangle =
     \<lparr>spines_num_vertices = 3, num_spines = 1,
      vertices = [\<lparr>pos_x = 0, pos_y = 0\<rparr>, \<lparr>pos_x = 3, pos_y = 0\<rparr>, \<lparr>pos_x = 3, pos_y = 4\<rparr>],
      spine_lengths = [3], spines_closed = True\<rparr>"

text \<open>The \<open>u\<close> coordinates of the mesh vertices of spine \<open>j\<close>, in order.\<close>

definition spine_us :: "'f par_streamlines_mesh \<Rightarrow> bool \<Rightarrow> u16 list \<Rightarrow> nat \<Rightarrow> 'f list" where
  "spine_us m is_closed ls j =
     map u_along_curve
       (take (spine_vertex_count is_closed (ls ! j))
          (drop (spine_base is_closed ls j) (vertex_annotations m)))"

text \<open>A closed unit square.\<close>

definition unit_square :: "real par_streamlines_spine_list" where
  "unit_square =
     \<lparr>spines_num_vertices = 4, num_spines = 1,
      vertices = [\<lparr>pos_x = 0, pos_y = 0\<rparr>, \<lparr>pos_x = 1, pos_y = 0\<rparr>, \<lparr>pos_x = 1, pos_y = 1\<rparr>,
                  \<lparr>pos_x = 0, pos_y = 1\<rparr>],
      spine_lengths = [4], spines_closed = True\<rparr>"

text \<open>The header's configuration in \<open>SEGMENT_FRACTION\<close> mode, and a closed zigzag of 65535
  vertices (0, 0), (1, 1), (2, 0), (3, 1), ...\<close>

definition fraction_config :: "real par_streamlines_config" where
  "fraction_config = example_config\<lparr>u_mode := PAR_U_MODE_SEGMENT_FRACTION\<rparr>"

definition zigzag :: "real par_streamlines_spine_list" where
  "zigzag =
     \<lparr>spines_num_vertices = 65535, num_spines = 1,
      vertices = map (\<lambda>k. \<lparr>pos_x = real k, pos_y = real (k mod 2)\<rparr>) [0..<65535],
      spine_lengths = [65535], spines_closed = True\<rparr>"

section \<open>The walk along one spine\<close>

lemma interior_step_simps:
  "pn (interior_step ops t wire b src w) = segment_normal ops (src ! segment_index w) (src ! Suc (segment_index w))"
  "segment_index (interior_step ops t wire b src w) = Suc (segment_index w)"
  "distance_along_spine (interior_step ops t wire b src w) =
     f_add ops (distance_along_spine w) (segment_length ops (src ! segment_index w) (src ! Suc (segment_index w)))"
  "dst_positions (interior_step ops t wire b src w) =
     dst_positions w @ pair_positions ops (src ! segment_index w)
        (miter_offset ops t (pn w) (segment_normal ops (src ! segment_index w) (src ! Suc (segment_index w))))"
  "dst_annotations (interior_step ops t wire b src w) =
     dst_annotations w @ pair_annotations ops (distance_along_spine w)
        (miter_offset ops t (pn w) (segment_normal ops (src ! segment_index w) (src ! Suc (segment_index w))))"
  "dst_indices (interior_step ops t wire b src w) = dst_indices w @ quad_indices wire b (segment_index w)"
  by (simp_all add: interior_step_def Let_def)

lemma length_pair_positions: "length (pair_positions ops p e) = 2"
  by (simp add: pair_positions_def)

lemma length_pair_annotations: "length (pair_annotations ops u e) = 2"
  by (simp add: pair_annotations_def)

lemma length_quad_indices: "length (quad_indices wire b i) = (if wire then 8 else 6)"
  by (simp add: quad_indices_def Let_def)

declare interior_loop.simps [simp del]

lemma interior_loop_step:
  "Suc (segment_index w) < n \<Longrightarrow>
   interior_loop ops t wire b n src w =
     interior_loop ops t wire b n src (interior_step ops t wire b src w)"
  by (subst interior_loop.simps) simp

lemma interior_loop_done:
  "\<not> Suc (segment_index w) < n \<Longrightarrow> interior_loop ops t wire b n src w = w"
  by (subst interior_loop.simps) simp

lemma interior_loop_segment_index:
  "segment_index w < n \<Longrightarrow> Suc (segment_index (interior_loop ops t wire b n src w)) = n"
proof (induction ops t wire b n src w rule: interior_loop.induct)
  case (1 ops t wire b n src w)
  show ?case
  proof (cases "Suc (segment_index w) < n")
    case True
    then show ?thesis using 1 by (simp add: interior_loop_step interior_step_simps)
  next
    case False
    then show ?thesis using "1.prems" by (simp add: interior_loop_done)
  qed
qed

lemma interior_loop_length:
  "segment_index w < n \<Longrightarrow>
   length (dst_positions (interior_loop ops t wire b n src w)) =
     length (dst_positions w) + 2 * (n - Suc (segment_index w)) \<and>
   length (dst_annotations (interior_loop ops t wire b n src w)) =
     length (dst_annotations w) + 2 * (n - Suc (segment_index w)) \<and>
   length (dst_indices (interior_loop ops t wire b n src w)) =
     length (dst_indices w) + (if wire then 8 else 6) * (n - Suc (segment_index w))"
proof (induction ops t wire b n src w rule: interior_loop.induct)
  case (1 ops t wire b n src w)
  show ?case
  proof (cases "Suc (segment_index w) < n")
    case True
    have d: "n - Suc (segment_index w) = Suc (n - Suc (Suc (segment_index w)))"
      using True by simp
    show ?thesis using 1 True
      by (simp add: interior_loop_step [OF True] interior_step_simps length_pair_positions
            length_pair_annotations length_quad_indices d)
  next
    case False
    then show ?thesis using "1.prems" by (simp add: interior_loop_done)
  qed
qed

lemma length_rewrite_u: "length (rewrite_u g i as) = length as"
  by (induction g i as rule: rewrite_u.induct) simp_all

lemma length_fix_u: "length (fix_u ops mode d sl nverts as) = length as"
  by (cases mode) (simp_all add: fix_u_def length_rewrite_u)

lemma first_vertex_simps:
  "pn (first_vertex ops t cl n src) = segment_normal ops (src ! 0) (src ! 1)"
  "distance_along_spine (first_vertex ops t cl n src) = segment_length ops (src ! 0) (src ! 1)"
  "segment_index (first_vertex ops t cl n src) = 1"
  "dst_positions (first_vertex ops t cl n src) =
     pair_positions ops (src ! 0) (first_offset ops t cl n src)"
  "dst_annotations (first_vertex ops t cl n src) =
     pair_annotations ops (f_of_int ops 0) (first_offset ops t cl n src)"
  "dst_indices (first_vertex ops t cl n src) = []"
  by (simp_all add: first_vertex_def)

lemma last_vertex_simps:
  "pn (last_vertex ops wire b src e w) = segment_normal ops (src ! 0) (src ! 1)"
  "distance_along_spine (last_vertex ops wire b src e w) = distance_along_spine w"
  "segment_index (last_vertex ops wire b src e w) = segment_index w"
  "dst_positions (last_vertex ops wire b src e w) =
     dst_positions w @ pair_positions ops (src ! segment_index w) e"
  "dst_annotations (last_vertex ops wire b src e w) =
     dst_annotations w @ pair_annotations ops (distance_along_spine w) e"
  "dst_indices (last_vertex ops wire b src e w) =
     dst_indices w @ quad_indices wire b (segment_index w)"
  by (simp_all add: last_vertex_def)

lemma seam_pair_simps:
  "pn (seam_pair ops wire b src fp e w) = pn w"
  "distance_along_spine (seam_pair ops wire b src fp e w) =
     f_add ops (distance_along_spine w) (segment_length ops (src ! 0) (src ! 1))"
  "segment_index (seam_pair ops wire b src fp e w) = Suc (segment_index w)"
  "dst_positions (seam_pair ops wire b src fp e w) = dst_positions w @ fp"
  "dst_annotations (seam_pair ops wire b src fp e w) =
     dst_annotations w @ pair_annotations ops (distance_along_spine w) e"
  "dst_indices (seam_pair ops wire b src fp e w) =
     dst_indices w @ quad_indices wire b (Suc (segment_index w))"
  by (simp_all add: seam_pair_def)

lemma length_draw_spine:
  assumes "1 < unat sl"
  shows "length (out_positions (draw_spine ops cfg cl b sl src)) = spine_vertex_count cl sl"
    and "length (out_annotations (draw_spine ops cfg cl b sl src)) = spine_vertex_count cl sl"
    and "length (out_indices (draw_spine ops cfg cl b sl src)) =
           indices_per_triangle cfg * spine_triangle_count cl sl"
    and "length (out_lengths (draw_spine ops cfg cl b sl src)) =
           2 * unat (sl + (if cl then 1 else 0))"
proof -
  let ?w0 = "first_vertex ops (thickness cfg) cl (unat sl) src"
  have s: "segment_index ?w0 < unat sl" using assms by (simp add: first_vertex_simps)
  note il = interior_loop_length [OF s, of ops "thickness cfg" "wireframe cfg" b src]
  show "length (out_positions (draw_spine ops cfg cl b sl src)) = spine_vertex_count cl sl"
    using il assms
    by (cases cl) (simp_all add: draw_spine_def Let_def spine_vertex_count_def first_vertex_simps
          last_vertex_simps seam_pair_simps length_pair_positions)
  show "length (out_annotations (draw_spine ops cfg cl b sl src)) = spine_vertex_count cl sl"
    using il assms
    by (cases cl) (simp_all add: draw_spine_def Let_def spine_vertex_count_def first_vertex_simps
          last_vertex_simps seam_pair_simps length_pair_annotations length_fix_u)
  show "length (out_indices (draw_spine ops cfg cl b sl src)) =
           indices_per_triangle cfg * spine_triangle_count cl sl"
    using il assms
    by (cases cl) (auto simp: draw_spine_def Let_def spine_triangle_count_def
          indices_per_triangle_def first_vertex_simps last_vertex_simps seam_pair_simps
          length_quad_indices)
  show "length (out_lengths (draw_spine ops cfg cl b sl src)) =
           2 * unat (sl + (if cl then 1 else 0))"
    by (simp add: draw_spine_def Let_def)
qed

lemma total_Cons:
  "total_vertices cl (n # ls) = spine_vertex_count cl n + total_vertices cl ls"
  "total_triangles cl (n # ls) = spine_triangle_count cl n + total_triangles cl ls"
  "total_vertices cl [] = 0" "total_triangles cl [] = 0"
  by (simp_all add: total_vertices_def total_triangles_def)

lemma mesh_sizing_Inr:
  "mesh_sizing cl k ls acc = Inr acc' \<Longrightarrow>
     k \<le> length ls \<and> list_all (\<lambda>n. 1 < unat n) (take k ls) \<and>
     fst acc' = fst acc + word_of_nat (total_vertices cl (take k ls)) \<and>
     snd acc' = snd acc + word_of_nat (total_triangles cl (take k ls))"
proof (induction cl k ls acc rule: mesh_sizing.induct)
  case (1 cl ls acc)
  then show ?case by (simp add: total_Cons)
next
  case (2 cl k acc)
  then show ?case by simp
next
  case (3 cl k sl ls nv nt)
  then show ?case
    by (auto simp: total_Cons spine_vertex_count_def spine_triangle_count_def
          split: if_splits)
qed

lemma mesh_sizing_ok:
  "k \<le> length ls \<Longrightarrow> list_all (\<lambda>n. 1 < unat n) (take k ls) \<Longrightarrow>
   mesh_sizing cl k ls acc =
     Inr (fst acc + word_of_nat (total_vertices cl (take k ls)),
          snd acc + word_of_nat (total_triangles cl (take k ls)))"
proof (induction cl k ls acc rule: mesh_sizing.induct)
  case (1 cl ls acc)
  then show ?case by (simp add: total_Cons)
next
  case (2 cl k acc)
  then show ?case by simp
next
  case (3 cl k sl ls nv nt)
  then show ?case
    by (auto simp: total_Cons spine_vertex_count_def spine_triangle_count_def)
qed

lemma mesh_sizing_bad:
  "\<not> list_all (\<lambda>n. 1 < unat n) (take k ls) \<Longrightarrow> mesh_sizing cl k ls acc = Inl AssertionFailed"
  by (induction cl k ls acc rule: mesh_sizing.induct) auto

lemma append_buffers_simps:
  "out_positions (append_buffers a b) = out_positions a @ out_positions b"
  "out_annotations (append_buffers a b) = out_annotations a @ out_annotations b"
  "out_lengths (append_buffers a b) = out_lengths a @ out_lengths b"
  "out_indices (append_buffers a b) = out_indices a @ out_indices b"
  by (simp_all add: append_buffers_def)

lemma spines_loop_Inr:
  "spines_loop ops cfg cl arrs k ls src b dst = Inr (src', dst') \<Longrightarrow>
   list_all (\<lambda>n. 1 < unat n) (take k ls) \<Longrightarrow>
     k \<le> length ls \<and>
     sum_list (map unat (take k ls)) \<le> length src \<and>
     src' = drop (sum_list (map unat (take k ls))) src \<and>
     length (out_positions dst') = length (out_positions dst) + total_vertices cl (take k ls) \<and>
     length (out_annotations dst') = length (out_annotations dst) + total_vertices cl (take k ls) \<and>
     length (out_indices dst') =
       length (out_indices dst) + indices_per_triangle cfg * total_triangles cl (take k ls)"
proof (induction ops cfg cl arrs k ls src b dst rule: spines_loop.induct)
  case (1 ops cfg cl arrs ls src b dst)
  then show ?case by (simp add: total_Cons)
next
  case (2 ops cfg cl arrs k src b dst)
  then show ?case by simp
next
  case (3 ops cfg cl arrs k sl ls src b dst)
  from "3.prems" have sl: "1 < unat sl" and rest: "list_all (\<lambda>n. 1 < unat n) (take k ls)"
    by simp_all
  from "3.prems"(1) have ok: "\<not> (length src < unat sl \<or> length src < 2)"
    by (auto split: if_splits)
  from "3.prems"(1) have run:
    "spines_loop ops cfg cl arrs k ls (drop (unat sl) src)
       (b + word_of_nat (unat sl * 2 + (if cl then 2 else 0)))
       (append_buffers dst (draw_spine ops cfg cl b sl src)) = Inr (src', dst')"
    by (simp split: if_splits)
  from "3.IH" [OF ok _ run rest] "3.prems"(1)
  have ih: "k \<le> length ls \<and>
     sum_list (map unat (take k ls)) \<le> length (drop (unat sl) src) \<and>
     src' = drop (sum_list (map unat (take k ls))) (drop (unat sl) src) \<and>
     length (out_positions dst') =
       length (out_positions (append_buffers dst (draw_spine ops cfg cl b sl src))) +
       total_vertices cl (take k ls) \<and>
     length (out_annotations dst') =
       length (out_annotations (append_buffers dst (draw_spine ops cfg cl b sl src))) +
       total_vertices cl (take k ls) \<and>
     length (out_indices dst') =
       length (out_indices (append_buffers dst (draw_spine ops cfg cl b sl src))) +
       indices_per_triangle cfg * total_triangles cl (take k ls)"
    by (auto split: if_splits)
  show ?case using ih ok
    by (auto simp: total_Cons append_buffers_simps length_draw_spine [OF sl]
          add_mult_distrib2 add.commute)
qed

lemma nverts_le: "2 * unat (sl + (if cl then 1 else 0 :: u16)) \<le> spine_vertex_count cl sl"
proof -
  have "unat (sl + 1) \<le> unat sl + 1"
    by (simp add: unat_word_ariths)
  then show ?thesis by (simp add: spine_vertex_count_def)
qed

lemma spines_loop_ok:
  "k \<le> length ls \<Longrightarrow> list_all (\<lambda>n. 1 < unat n) (take k ls) \<Longrightarrow>
   sum_list (map unat (take k ls)) \<le> length src \<Longrightarrow>
   length (out_positions dst) + total_vertices cl (take k ls) \<le>
     pa_capacity (positions_array arrs) \<Longrightarrow>
   length (out_annotations dst) + total_vertices cl (take k ls) \<le>
     pa_capacity (annotations_array arrs) \<Longrightarrow>
   length (out_lengths dst) + total_vertices cl (take k ls) \<le>
     pa_capacity (lengths_array arrs) \<Longrightarrow>
   length (out_indices dst) + indices_per_triangle cfg * total_triangles cl (take k ls) \<le>
     pa_capacity (indices_array arrs) \<Longrightarrow>
   \<exists>src' dst'. spines_loop ops cfg cl arrs k ls src b dst = Inr (src', dst')"
proof (induction ops cfg cl arrs k ls src b dst rule: spines_loop.induct)
  case (1 ops cfg cl arrs ls src b dst)
  then show ?case by simp
next
  case (2 ops cfg cl arrs k src b dst)
  then show ?case by simp
next
  case (3 ops cfg cl arrs k sl ls src b dst)
  from "3.prems" have sl: "1 < unat sl" and rest: "list_all (\<lambda>n. 1 < unat n) (take k ls)"
    and k: "k \<le> length ls"
    by simp_all
  from "3.prems"(3) sl have ok: "\<not> (length src < unat sl \<or> length src < 2)"
    by simp
  note len = length_draw_spine [OF sl, of ops cfg cl b src]
  have caps: "\<not> (pa_capacity (positions_array arrs) < length (out_positions dst) +
                length (out_positions (draw_spine ops cfg cl b sl src))
            \<or> pa_capacity (annotations_array arrs) < length (out_annotations dst) +
                length (out_annotations (draw_spine ops cfg cl b sl src))
            \<or> pa_capacity (lengths_array arrs) < length (out_lengths dst) +
                length (out_lengths (draw_spine ops cfg cl b sl src))
            \<or> pa_capacity (indices_array arrs) < length (out_indices dst) +
                length (out_indices (draw_spine ops cfg cl b sl src)))"
    using "3.prems"(4-7) nverts_le [of sl cl]
    by (simp add: len total_Cons add_mult_distrib2)
  have "\<exists>src' dst'. spines_loop ops cfg cl arrs k ls (drop (unat sl) src)
       (b + word_of_nat (unat sl * 2 + (if cl then 2 else 0)))
       (append_buffers dst (draw_spine ops cfg cl b sl src)) = Inr (src', dst')"
  proof (rule "3.IH" [OF ok caps k rest])
    show "sum_list (map unat (take k ls)) \<le> length (drop (unat sl) src)"
      using "3.prems"(3) by simp
    show "length (out_positions (append_buffers dst (draw_spine ops cfg cl b sl src))) +
          total_vertices cl (take k ls) \<le> pa_capacity (positions_array arrs)"
      using "3.prems"(4) by (simp add: append_buffers_simps len total_Cons)
    show "length (out_annotations (append_buffers dst (draw_spine ops cfg cl b sl src))) +
          total_vertices cl (take k ls) \<le> pa_capacity (annotations_array arrs)"
      using "3.prems"(5) by (simp add: append_buffers_simps len total_Cons)
    show "length (out_lengths (append_buffers dst (draw_spine ops cfg cl b sl src))) +
          total_vertices cl (take k ls) \<le> pa_capacity (lengths_array arrs)"
      using "3.prems"(6) nverts_le [of sl cl]
      by (simp add: append_buffers_simps len total_Cons)
    show "length (out_indices (append_buffers dst (draw_spine ops cfg cl b sl src))) +
          indices_per_triangle cfg * total_triangles cl (take k ls) \<le>
          pa_capacity (indices_array arrs)"
      using "3.prems"(7) by (simp add: append_buffers_simps len total_Cons add_mult_distrib2)
  qed
  then show ?case using ok caps by simp
qed

lemma triangles_le_vertices: "total_triangles cl ls \<le> total_vertices cl ls"
  unfolding total_triangles_def total_vertices_def
  by (rule sum_list_mono) (simp add: spine_triangle_count_def spine_vertex_count_def)

lemma no_buffers_simps:
  "out_positions no_buffers = []" "out_annotations no_buffers = []"
  "out_lengths no_buffers = []" "out_indices no_buffers = []"
  by (simp_all add: no_buffers_def)

lemma unat_ind_per_tri:
  "unat ((if wireframe cfg then 4 else 3 :: u32) * word_of_nat n) =
     (indices_per_triangle cfg * n) mod 2 ^ 32"
  "unat (word_of_nat n * (if wireframe cfg then 4 else 3 :: u32)) =
     (indices_per_triangle cfg * n) mod 2 ^ 32"
  by (simp_all add: indices_per_triangle_def unat_word_ariths unat_of_nat mod_mult_right_eq
        mod_mult_left_eq mult.commute)

lemma sint_small:
  assumes "unat (n :: u32) < 2147483648"
  shows "sint n = int (unat n)"
proof -
  from assms have "int (unat n) < 2147483648" by linarith
  then have lt: "uint n < 2 ^ 31" by simp
  have ge: "- (2 ^ 31) \<le> uint n"
    by (rule order_trans [of _ 0]) simp_all
  have "sint n = signed_take_bit (LENGTH(32) - Suc 0) (uint n)"
    by (rule sint_uint)
  also have "\<dots> = signed_take_bit 31 (uint n)" by simp
  also have "\<dots> = uint n"
    using ge lt by (rule signed_take_bit_int_eq_self)
  finally show ?thesis by simp
qed

lemma unat_word_of_int_small:
  assumes "0 \<le> m" "m \<le> 2147483647"
  shows "unat (word_of_int m :: u32) = nat m"
proof -
  have "uint (word_of_int m :: u32) = m mod 2 ^ 32"
    by (simp add: uint_word_of_int)
  also have "\<dots> = m" using assms by simp
  finally show ?thesis by (simp add: unat_eq_nat_uint)
qed

lemma pa_add_Null:
  assumes "pa_add realloc heap isz Null n = Inr (a1, heap')"
  shows "\<exists>k. a1 = Array (if 0 > sint n then 0 else sint n) k"
  using assms
  by (auto simp: pa_add_def pa___needgrow_def pa___growf_def Let_def
        split: if_splits option.splits)

lemma pa_add_Array:
  assumes "pa_add realloc heap isz (Array m 0) n = Inr (a1, heap')"
  shows "\<exists>k. a1 = (if n \<ge> word_of_int m then Array (if 2 * m > sint n then 2 * m else sint n) k
                     else Array m k)"
  using assms
  by (auto simp: pa_add_def pa___needgrow_def pa___growf_def Let_def
        split: if_splits option.splits)

lemma pa_add_room:
  assumes c: "pa_clear a = Inr a0" and v: "pa_valid a"
    and a: "pa_add realloc heap isz a0 n = Inr (a1, heap')" and n: "unat n < 2147483648"
  shows "unat n \<le> pa_capacity a1"
proof (cases a)
  case Null
  with c have a0: "a0 = Null" by (simp add: pa_clear_def)
  from pa_add_Null [OF a [unfolded a0]] show ?thesis
    by (auto simp: pa_capacity_def sint_small [OF n])
next
  case Bogus
  with v show ?thesis by (simp add: pa_valid_def)
next
  case (Array m k)
  with c have a0: "a0 = Array m 0" by (simp add: pa_clear_def)
  from v Array have m: "0 \<le> m" "m \<le> 2147483647" by (simp_all add: pa_valid_def)
  from pa_add_Array [OF a [unfolded a0]] obtain j where
    a1: "a1 = (if n \<ge> word_of_int m
               then Array (if 2 * m > sint n then 2 * m else sint n) j else Array m j)"
    by blast
  show ?thesis
  proof (cases "n \<ge> word_of_int m")
    case True
    have "int (unat n) \<le> (if 2 * m > sint n then 2 * m else sint n)"
      by (simp add: sint_small [OF n])
    then have "unat n \<le> nat (if 2 * m > sint n then 2 * m else sint n)"
      by linarith
    then show ?thesis by (simp add: a1 True pa_capacity_def)
  next
    case False
    then have "unat n < nat m"
      by (simp add: word_le_nat_alt unat_word_of_int_small [OF m])
    then show ?thesis by (simp add: a1 False pa_capacity_def)
  qed
qed

lemma reserve_buffers_Inr:
  assumes "reserve_buffers realloc heap arrs nv ni = Inr (arrs', heap')"
  obtains l0 a0 p0 i0 heap1 heap2 heap3 where
    "pa_clear (lengths_array arrs) = Inr l0" "pa_clear (annotations_array arrs) = Inr a0"
    "pa_clear (positions_array arrs) = Inr p0" "pa_clear (indices_array arrs) = Inr i0"
    "pa_add realloc heap 4 l0 nv = Inr (lengths_array arrs', heap1)"
    "pa_add realloc heap1 16 a0 nv = Inr (annotations_array arrs', heap2)"
    "pa_add realloc heap2 8 p0 nv = Inr (positions_array arrs', heap3)"
    "pa_add realloc heap3 4 i0 ni = Inr (indices_array arrs', heap')"
  using assms unfolding reserve_buffers_def
  by (auto split: sum.splits prod.splits)

lemma reserve_room:
  assumes r: "reserve_buffers realloc heap arrs nv ni = Inr (arrs', heap')"
    and v: "pa_valid (lengths_array arrs)" "pa_valid (annotations_array arrs)"
      "pa_valid (positions_array arrs)" "pa_valid (indices_array arrs)"
    and n: "unat nv < 2147483648" "unat ni < 2147483648"
  shows "unat nv \<le> pa_capacity (lengths_array arrs')"
    and "unat nv \<le> pa_capacity (annotations_array arrs')"
    and "unat nv \<le> pa_capacity (positions_array arrs')"
    and "unat ni \<le> pa_capacity (indices_array arrs')"
proof -
  from r obtain l0 a0 p0 i0 heap1 heap2 heap3 where
    c: "pa_clear (lengths_array arrs) = Inr l0" "pa_clear (annotations_array arrs) = Inr a0"
      "pa_clear (positions_array arrs) = Inr p0" "pa_clear (indices_array arrs) = Inr i0" and
    a: "pa_add realloc heap 4 l0 nv = Inr (lengths_array arrs', heap1)"
      "pa_add realloc heap1 16 a0 nv = Inr (annotations_array arrs', heap2)"
      "pa_add realloc heap2 8 p0 nv = Inr (positions_array arrs', heap3)"
      "pa_add realloc heap3 4 i0 ni = Inr (indices_array arrs', heap')"
    by (rule reserve_buffers_Inr)
  show "unat nv \<le> pa_capacity (lengths_array arrs')"
    by (rule pa_add_room [OF c(1) v(1) a(1) n(1)])
  show "unat nv \<le> pa_capacity (annotations_array arrs')"
    by (rule pa_add_room [OF c(2) v(2) a(2) n(1)])
  show "unat nv \<le> pa_capacity (positions_array arrs')"
    by (rule pa_add_room [OF c(3) v(3) a(3) n(1)])
  show "unat ni \<le> pa_capacity (indices_array arrs')"
    by (rule pa_add_room [OF c(4) v(4) a(4) n(2)])
qed

lemma uint_bound: "unat (n :: u32) < c \<Longrightarrow> uint n < int c"
  unfolding uint_nat by linarith

lemma pa_add_fresh:
  assumes "unat n < 2147483648" "isz * uint n \<le> 2147483647" "0 \<le> isz"
  shows "pa_add granting heap isz Null n = Inr (Array (uint n) (uint n), heap)"
proof -
  have "- 2147483648 \<le> uint n"
    by (rule order_trans [of _ 0]) simp_all
  with uint_bound [OF assms(1)] have "int_fits (uint n)" by (simp add: int_fits_def)
  moreover have "0 \<le> isz * uint n" using assms(3) by simp
  with assms(2) have "int_fits (isz * uint n)"
    by (simp add: int_fits_def)
  moreover have "int_fits 0" by (simp add: int_fits_def)
  ultimately show ?thesis
    by (simp add: pa_add_def pa___needgrow_def pa___growf_def Let_def granting_def
          sint_small [OF assms(1)])
qed

lemma reserve_fresh:
  assumes "unat nv < 134217728" "unat ni < 536870912"
  shows "reserve_buffers granting heap
           \<lparr>lengths_array = Null, annotations_array = Null, positions_array = Null,
             indices_array = Null\<rparr> nv ni =
         Inr (\<lparr>lengths_array = Array (uint nv) (uint nv),
                annotations_array = Array (uint nv) (uint nv),
                positions_array = Array (uint nv) (uint nv),
                indices_array = Array (uint ni) (uint ni)\<rparr>, heap)"
proof -
  note v = uint_bound [OF assms(1)] and i = uint_bound [OF assms(2)]
  have 1: "pa_add granting heap 4 Null nv = Inr (Array (uint nv) (uint nv), heap)"
    using assms(1) v by (intro pa_add_fresh) simp_all
  have 2: "pa_add granting heap 16 Null nv = Inr (Array (uint nv) (uint nv), heap)"
    using assms(1) v by (intro pa_add_fresh) simp_all
  have 3: "pa_add granting heap 8 Null nv = Inr (Array (uint nv) (uint nv), heap)"
    using assms(1) v by (intro pa_add_fresh) simp_all
  have 4: "pa_add granting heap 4 Null ni = Inr (Array (uint ni) (uint ni), heap)"
    using assms(2) i by (intro pa_add_fresh) simp_all
  show ?thesis
    unfolding reserve_buffers_def
    by (simp only: pa_clear_def pa_array.case sum.case prod.case pa_arrays.simps 1 2 3 4)
qed

lemma draw_lines_Inr:
  assumes "mesh_sizing (spines_closed s) (unat (num_spines s)) (spine_lengths s) (0, 0) =
           Inr (num_vertices m, num_triangles m)"
    and "draw_spines ops cfg arrs s (num_vertices m) (num_triangles m) = Inr m"
  shows "list_all (\<lambda>n. 1 < unat n) (spines_read s)"
    and "sum_list (map unat (spines_read s)) = unat (spines_num_vertices s)"
    and "unat (num_spines s) \<le> length (spine_lengths s)"
    and "sum_list (map unat (spines_read s)) \<le> length (vertices s)"
    and "unat (num_vertices m) = total_vertices (spines_closed s) (spines_read s)"
    and "unat (num_triangles m) = total_triangles (spines_closed s) (spines_read s)"
    and "length (vertex_positions m) = total_vertices (spines_closed s) (spines_read s)"
    and "length (vertex_annotations m) = total_vertices (spines_closed s) (spines_read s)"
    and "length (triangle_indices m) =
           indices_per_triangle cfg * total_triangles (spines_closed s) (spines_read s)"
    and "indices_per_triangle cfg * total_triangles (spines_closed s) (spines_read s) < 2 ^ 32"
    and "\<exists>arrs src'. spines_loop ops cfg (spines_closed s) arrs (unat (num_spines s))
           (spine_lengths s) (vertices s) 0 no_buffers =
         Inr (src', \<lparr>out_positions = vertex_positions m,
                     out_annotations = vertex_annotations m,
                     out_lengths = vertex_lengths m, out_indices = triangle_indices m\<rparr>)"
proof -
  let ?cl = "spines_closed s" and ?k = "unat (num_spines s)" and ?ls = "spine_lengths s"
  let ?ipt = "if wireframe cfg then 4 else 3 :: u32"
  define nv where "nv = num_vertices m"
  define nt where "nt = num_triangles m"
  from assms have
    sz: "mesh_sizing ?cl ?k ?ls (0, 0) = Inr (nv, nt)" and
    ds: "draw_spines ops cfg arrs s nv nt = Inr m"
    by (simp_all add: nv_def nt_def)
  from ds obtain src dst where
    lp: "spines_loop ops cfg ?cl arrs ?k ?ls (vertices s) 0 no_buffers = Inr (src, dst)"
    by (auto simp: draw_spines_def Let_def split: sum.splits)
  from ds lp have
    a1: "length (vertices s) - length src = unat (spines_num_vertices s)" and
    a2: "length (out_annotations dst) = unat nv" and
    a3: "length (out_positions dst) = unat nv" and
    a4: "length (out_indices dst) = unat (nt * ?ipt)" and
    m: "m = \<lparr>num_vertices = nv, num_triangles = nt, vertex_positions = out_positions dst,
              vertex_annotations = out_annotations dst, vertex_lengths = out_lengths dst,
              triangle_indices = out_indices dst\<rparr>"
    by (auto simp: draw_spines_def Let_def split: if_splits)
  from mesh_sizing_Inr [OF sz] have
    k: "?k \<le> length ?ls" and all: "list_all (\<lambda>n. 1 < unat n) (spines_read s)" and
    nv: "nv = word_of_nat (total_vertices ?cl (spines_read s))" and
    nt: "nt = word_of_nat (total_triangles ?cl (spines_read s))"
    by (simp_all add: spines_read_def)
  from spines_loop_Inr [OF lp] all have
    sum: "sum_list (map unat (spines_read s)) \<le> length (vertices s)" and
    src: "src = drop (sum_list (map unat (spines_read s))) (vertices s)" and
    lpos: "length (out_positions dst) = total_vertices ?cl (spines_read s)" and
    lann: "length (out_annotations dst) = total_vertices ?cl (spines_read s)" and
    lind: "length (out_indices dst) =
             indices_per_triangle cfg * total_triangles ?cl (spines_read s)"
    by (simp_all add: spines_read_def no_buffers_simps)
  have tv: "total_vertices ?cl (spines_read s) < 2 ^ 32"
    using a3 lpos unsigned_less [of nv, where ?'a = nat] by simp
  then have unv: "unat nv = total_vertices ?cl (spines_read s)"
    using a3 lpos by simp
  have "total_triangles ?cl (spines_read s) < 2 ^ 32"
    using tv triangles_le_vertices [of ?cl "spines_read s"] by simp
  then have unt: "unat nt = total_triangles ?cl (spines_read s)"
    by (simp add: nt unat_of_nat)
  show "list_all (\<lambda>n. 1 < unat n) (spines_read s)" by (rule all)
  show "sum_list (map unat (spines_read s)) = unat (spines_num_vertices s)"
    using a1 src sum by simp
  show "unat (num_spines s) \<le> length (spine_lengths s)" by (rule k)
  show "sum_list (map unat (spines_read s)) \<le> length (vertices s)" by (rule sum)
  show "unat (num_vertices m) = total_vertices ?cl (spines_read s)" by (simp add: m unv)
  show "unat (num_triangles m) = total_triangles ?cl (spines_read s)" by (simp add: m unt)
  show "length (vertex_positions m) = total_vertices ?cl (spines_read s)" by (simp add: m lpos)
  show "length (vertex_annotations m) = total_vertices ?cl (spines_read s)"
    by (simp add: m lann)
  show "length (triangle_indices m) =
          indices_per_triangle cfg * total_triangles ?cl (spines_read s)"
    by (simp add: m lind)
  show "indices_per_triangle cfg * total_triangles ?cl (spines_read s) < 2 ^ 32"
    using a4 lind unsigned_less [of "nt * ?ipt", where ?'a = nat] by simp
  show "\<exists>arrs src'. spines_loop ops cfg ?cl arrs ?k ?ls (vertices s) 0 no_buffers =
         Inr (src', \<lparr>out_positions = vertex_positions m,
                     out_annotations = vertex_annotations m,
                     out_lengths = vertex_lengths m, out_indices = triangle_indices m\<rparr>)"
    by (rule exI [of _ arrs], rule exI [of _ src]) (simp add: lp m)
qed

lemma draw_spines_run:
  assumes k: "unat (num_spines s) \<le> length (spine_lengths s)"
    and all: "list_all (\<lambda>n. 1 < unat n) (spines_read s)"
    and sum: "sum_list (map unat (spines_read s)) \<le> length (vertices s)"
    and tv: "total_vertices (spines_closed s) (spines_read s) < 2 ^ 32"
    and ti: "indices_per_triangle cfg * total_triangles (spines_closed s) (spines_read s) < 2 ^ 32"
    and room: "total_vertices (spines_closed s) (spines_read s) \<le> pa_capacity (positions_array arrs)"
      "total_vertices (spines_closed s) (spines_read s) \<le> pa_capacity (annotations_array arrs)"
      "total_vertices (spines_closed s) (spines_read s) \<le> pa_capacity (lengths_array arrs)"
      "indices_per_triangle cfg * total_triangles (spines_closed s) (spines_read s) \<le>
         pa_capacity (indices_array arrs)"
  shows "\<exists>m. draw_spines ops cfg arrs s
             (word_of_nat (total_vertices (spines_closed s) (spines_read s)))
             (word_of_nat (total_triangles (spines_closed s) (spines_read s))) =
           (if sum_list (map unat (spines_read s)) = unat (spines_num_vertices s)
            then Inr m else Inl AssertionFailed)"
proof -
  let ?cl = "spines_closed s" and ?k = "unat (num_spines s)" and ?ls = "spine_lengths s"
  let ?ipt = "if wireframe cfg then 4 else 3 :: u32"
  let ?tv = "total_vertices ?cl (spines_read s)" and ?tt = "total_triangles ?cl (spines_read s)"
  let ?nv = "word_of_nat ?tv :: u32" and ?nt = "word_of_nat ?tt :: u32"
  have unv: "unat ?nv = ?tv" using tv by (simp add: unat_of_nat)
  have uni': "unat (?nt * ?ipt) = indices_per_triangle cfg * ?tt"
    using ti by (simp only: unat_ind_per_tri mod_less)
  from spines_loop_ok [OF k, where cfg = cfg and cl = ?cl and src = "vertices s"
      and dst = no_buffers and arrs = arrs and ops = ops and b = 0]
  obtain src dst where
    lp: "spines_loop ops cfg ?cl arrs ?k ?ls (vertices s) 0 no_buffers = Inr (src, dst)"
    using all sum room by (auto simp: spines_read_def no_buffers_simps)
  from spines_loop_Inr [OF lp] all have
    src: "src = drop (sum_list (map unat (spines_read s))) (vertices s)" and
    lpos: "length (out_positions dst) = ?tv" and
    lann: "length (out_annotations dst) = ?tv" and
    lind: "length (out_indices dst) = indices_per_triangle cfg * ?tt"
    by (simp_all add: spines_read_def no_buffers_simps)
  have consumed: "length (vertices s) - length src = sum_list (map unat (spines_read s))"
    using src sum by simp
  show ?thesis
    unfolding draw_spines_def Let_def lp sum.case prod.case unv uni' consumed lpos lann lind
    by simp
qed

lemma draw_lines_mesh:
  assumes "par_streamlines_draw_lines ops realloc heap c s = Inr (c', heap')"
  shows "mesh_sizing (spines_closed s) (unat (num_spines s)) (spine_lengths s) (0, 0) =
           Inr (num_vertices (result c'), num_triangles (result c'))"
    and "draw_spines ops (config c) (arrays c') s (num_vertices (result c'))
           (num_triangles (result c')) = Inr (result c')"
    and "config c' = config c"
proof -
  from assms obtain nv nt where
    sz: "mesh_sizing (spines_closed s) (unat (num_spines s)) (spine_lengths s) (0, 0) =
           Inr (nv, nt)"
    by (auto simp: par_streamlines_draw_lines_def Let_def split: sum.splits)
  from assms sz obtain arrs m where
    ds: "draw_spines ops (config c) arrs s nv nt = Inr m" and
    c': "c' = c\<lparr>result := m, arrays := arrs\<rparr>"
    by (auto simp: par_streamlines_draw_lines_def Let_def split: sum.splits)
  from ds have m: "num_vertices m = nv" "num_triangles m = nt"
    by (auto simp: draw_spines_def Let_def split: sum.splits if_splits)
  show "mesh_sizing (spines_closed s) (unat (num_spines s)) (spine_lengths s) (0, 0) =
           Inr (num_vertices (result c'), num_triangles (result c'))"
    by (simp add: c' m sz)
  show "draw_spines ops (config c) (arrays c') s (num_vertices (result c'))
           (num_triangles (result c')) = Inr (result c')"
    by (simp add: c' m ds)
  show "config c' = config c" by (simp add: c')
qed

lemma indices_asked_eq:
  "(if wireframe cfg then 4 else 3 :: u32) * word_of_nat (total_triangles cl ls) =
     word_of_nat (indices_per_triangle cfg * total_triangles cl ls)"
  by (simp add: indices_per_triangle_def)

lemma draw_lines_run:
  assumes k: "unat (num_spines s) \<le> length (spine_lengths s)"
    and all: "list_all (\<lambda>n. 1 < unat n) (spines_read s)"
    and sum: "sum_list (map unat (spines_read s)) \<le> length (vertices s)"
    and fit: "counts_fit (config c) s"
    and valid: "context_valid c"
    and res: "reserve_buffers realloc heap (arrays c) (vertices_asked s)
                (indices_asked (config c) s) = Inr (arrs, heap')"
  shows "\<exists>m. par_streamlines_draw_lines ops realloc heap c s =
           (if sum_list (map unat (spines_read s)) = unat (spines_num_vertices s)
            then Inr (c\<lparr>result := m, arrays := arrs\<rparr>, heap') else Inl AssertionFailed)"
proof -
  let ?cl = "spines_closed s" and ?k = "unat (num_spines s)" and ?ls = "spine_lengths s"
  let ?cfg = "config c"
  let ?tv = "total_vertices ?cl (spines_read s)" and ?tt = "total_triangles ?cl (spines_read s)"
  let ?nv = "word_of_nat ?tv :: u32" and ?nt = "word_of_nat ?tt :: u32"
  from fit have tv: "?tv < 2147483648" and ti: "indices_per_triangle ?cfg * ?tt < 2147483648"
    by (simp_all add: counts_fit_def)
  have sz: "mesh_sizing ?cl ?k ?ls (0, 0) = Inr (?nv, ?nt)"
    using mesh_sizing_ok [OF k, of ?cl "(0, 0)"] all by (simp add: spines_read_def)
  have unv: "unat (vertices_asked s) = ?tv"
    using tv by (simp add: vertices_asked_def unat_of_nat)
  have uni: "unat (indices_asked ?cfg s) = indices_per_triangle ?cfg * ?tt"
    using ti unfolding indices_asked_def unat_of_nat by simp
  from valid have v: "pa_valid (lengths_array (arrays c))"
    "pa_valid (annotations_array (arrays c))" "pa_valid (positions_array (arrays c))"
    "pa_valid (indices_array (arrays c))"
    by (simp_all add: context_valid_def)
  from tv unv have n1: "unat (vertices_asked s) < 2147483648" by simp
  from ti uni have n2: "unat (indices_asked ?cfg s) < 2147483648" by simp
  note room = reserve_room [OF res v n1 n2, unfolded unv uni]
  from tv have tv': "?tv < 2 ^ 32" by simp
  from ti have ti': "indices_per_triangle ?cfg * ?tt < 2 ^ 32" by simp
  from draw_spines_run [OF k all sum tv' ti' room(3,2,1,4), of ops] obtain m where
    ds: "draw_spines ops ?cfg arrs s ?nv ?nt =
           (if sum_list (map unat (spines_read s)) = unat (spines_num_vertices s)
            then Inr m else Inl AssertionFailed)"
    by blast
  have res': "reserve_buffers realloc heap (arrays c) ?nv
                ((if wireframe ?cfg then 4 else 3) * ?nt) = Inr (arrs, heap')"
    using res by (simp only: vertices_asked_def indices_asked_def indices_asked_eq)
  show ?thesis
    unfolding par_streamlines_draw_lines_def Let_def sz sum.case prod.case res' ds
    by (intro exI [of _ m]) simp
qed

lemma draw_lines_ok:
  assumes "spine_list_valid s" "arrays_as_declared s" "counts_fit (config c) s"
    and "context_valid c"
    and "reserve_buffers realloc heap (arrays c) (vertices_asked s)
           (indices_asked (config c) s) = Inr (arrs, heap')"
  shows "\<exists>m. par_streamlines_draw_lines ops realloc heap c s =
           Inr (c\<lparr>result := m, arrays := arrs\<rparr>, heap')"
proof -
  from assms(1,2) have "sum_list (map unat (spines_read s)) \<le> length (vertices s)"
    by (simp add: spine_list_valid_def arrays_as_declared_def)
  from draw_lines_run [OF _ _ this assms(3,4,5), of ops] assms(1,2) show ?thesis
    by (simp add: spine_list_valid_def arrays_as_declared_def)
qed

lemma draw_lines_bad_length:
  "\<not> list_all (\<lambda>n. 1 < unat n) (spines_read s) \<Longrightarrow>
   par_streamlines_draw_lines ops realloc heap c s = Inl AssertionFailed"
  by (simp add: par_streamlines_draw_lines_def spines_read_def mesh_sizing_bad)

lemma fresh_context_simps:
  "config (fresh_context cfg) = cfg"
  "arrays (fresh_context cfg) =
     \<lparr>lengths_array = Null, annotations_array = Null, positions_array = Null,
      indices_array = Null\<rparr>"
  "context_valid (fresh_context cfg)"
  by (simp_all add: fresh_context_def context_valid_def pa_valid_def)

lemma fresh_reserved:
  assumes "total_vertices (spines_closed s) (spines_read s) < 134217728"
  shows "counts_fit cfg s"
    and "\<exists>arrs. reserve_buffers granting () (arrays (fresh_context cfg)) (vertices_asked s)
           (indices_asked cfg s) = Inr (arrs, ())"
proof -
  let ?tv = "total_vertices (spines_closed s) (spines_read s)"
  let ?tt = "total_triangles (spines_closed s) (spines_read s)"
  have "indices_per_triangle cfg * ?tt \<le> 4 * ?tt"
    by (simp add: indices_per_triangle_def)
  also have "\<dots> \<le> 4 * ?tv"
    using triangles_le_vertices [of "spines_closed s" "spines_read s"] by simp
  finally have ti: "indices_per_triangle cfg * ?tt < 536870912"
    using assms by simp
  show "counts_fit cfg s"
    using assms ti by (simp add: counts_fit_def)
  have n1: "unat (vertices_asked s) < 134217728"
    using assms by (simp add: vertices_asked_def unat_of_nat)
  have n2: "unat (indices_asked cfg s) < 536870912"
    using ti unfolding indices_asked_def unat_of_nat by simp
  from reserve_fresh [OF n1 n2, of "()"]
  show "\<exists>arrs. reserve_buffers granting () (arrays (fresh_context cfg)) (vertices_asked s)
           (indices_asked cfg s) = Inr (arrs, ())"
    by (simp add: fresh_context_simps)
qed

lemma draw_lines_fresh:
  assumes "spine_list_valid s" "arrays_as_declared s"
    and "total_vertices (spines_closed s) (spines_read s) < 134217728"
  shows "\<exists>c. par_streamlines_draw_lines ops granting () (fresh_context cfg) s = Inr (c, ())"
proof -
  note fr = fresh_reserved [OF assms(3), of cfg]
  from fr(2) obtain arrs where
    res: "reserve_buffers granting () (arrays (fresh_context cfg)) (vertices_asked s)
            (indices_asked (config (fresh_context cfg)) s) = Inr (arrs, ())"
    by (auto simp: fresh_context_simps)
  have fit: "counts_fit (config (fresh_context cfg)) s"
    using fr(1) by (simp add: fresh_context_simps)
  from draw_lines_ok [OF assms(1,2) fit fresh_context_simps(3) res, of ops]
  obtain m where
    c: "par_streamlines_draw_lines ops granting () (fresh_context cfg) s =
          Inr ((fresh_context cfg)\<lparr>result := m, arrays := arrs\<rparr>, ())"
    by blast
  then show ?thesis by blast
qed

lemma example_spines_ok:
  "spine_list_valid example_spines" "arrays_as_declared example_spines"
  "total_vertices (spines_closed example_spines) (spines_read example_spines) < 134217728"
  by (simp_all add: spine_list_valid_def arrays_as_declared_def spines_read_def
        example_spines_def total_vertices_def spine_vertex_count_def)

lemma total_vertices_sum:
  "total_vertices cl ls = (\<Sum>n\<leftarrow>ls. 2 * unat n + (if cl then 2 else 0))"
  by (induction ls) (simp_all add: total_Cons spine_vertex_count_def)

lemma total_triangles_sum:
  "total_triangles cl ls = (\<Sum>n\<leftarrow>ls. 2 * (unat n - 1) + (if cl then 2 else 0))"
  by (induction ls) (simp_all add: total_Cons spine_triangle_count_def)

section \<open>C1: the size of the mesh\<close>

text \<open>
  Claim C1. For every spine list that satisfies the preconditions (each spine length above
  1, lengths summing to \<open>num_vertices\<close>), whose arrays are as long as declared and whose
  vertex and index counts are below \<open>2 ^ 31\<close>, for every context whose buffers are \<open>NULL\<close>
  or arrays of a capacity that is not negative, and whenever lines 217--225 return (no
  \<open>int\<close> overflows in \<open>pa___growf\<close> and \<open>realloc\<close> grants each request),
  \<open>par_streamlines_draw_lines\<close> returns a mesh with exactly \<open>2n\<close> vertices and
  \<open>2(n - 1)\<close> triangles per open spine of length \<open>n\<close>, and \<open>2n + 2\<close> vertices and \<open>2n\<close>
  triangles per closed spine, summed over all spines; the position and annotation buffers
  have that many entries.
\<close>

theorem draw_lines_counts:
  assumes "spine_list_valid s" and "arrays_as_declared s" and "counts_fit (config c) s"
    and "context_valid c"
    and "reserve_buffers realloc heap (arrays c) (vertices_asked s)
           (indices_asked (config c) s) = Inr (arrs, heap')"
  shows "\<exists>m. par_streamlines_draw_lines ops realloc heap c s =
             Inr (c\<lparr>result := m, arrays := arrs\<rparr>, heap') \<and>
           unat (num_vertices m) =
             (\<Sum>n\<leftarrow>spines_read s. 2 * unat n + (if spines_closed s then 2 else 0)) \<and>
           unat (num_triangles m) =
             (\<Sum>n\<leftarrow>spines_read s. 2 * (unat n - 1) + (if spines_closed s then 2 else 0)) \<and>
           length (vertex_positions m) = unat (num_vertices m) \<and>
           length (vertex_annotations m) = unat (num_vertices m)"
proof -
  from draw_lines_ok [OF assms] obtain m where
    c: "par_streamlines_draw_lines ops realloc heap c s =
          Inr (c\<lparr>result := m, arrays := arrs\<rparr>, heap')"
    by blast
  from draw_lines_mesh(1,2) [OF c] have
    m: "mesh_sizing (spines_closed s) (unat (num_spines s)) (spine_lengths s) (0, 0) =
           Inr (num_vertices m, num_triangles m)"
       "draw_spines ops (config c) arrs s (num_vertices m) (num_triangles m) = Inr m"
    by simp_all
  note r = draw_lines_Inr [OF m]
  have 1: "unat (num_vertices m) =
          (\<Sum>n\<leftarrow>spines_read s. 2 * unat n + (if spines_closed s then 2 else 0))"
    using r(5) by (simp only: total_vertices_sum)
  have 2: "unat (num_triangles m) =
          (\<Sum>n\<leftarrow>spines_read s. 2 * (unat n - 1) + (if spines_closed s then 2 else 0))"
    using r(6) by (simp only: total_triangles_sum)
  have 3: "length (vertex_positions m) = unat (num_vertices m)"
    using r(5,7) by simp
  have 4: "length (vertex_annotations m) = unat (num_vertices m)"
    using r(5,8) by simp
  from c 1 2 3 4 show ?thesis by blast
qed

text \<open>The header's example, drawn with a fresh context and an allocator that grants every
  request, gives 6 vertices and 4 triangles.\<close>

theorem draw_lines_counts_witness:
  "spine_list_valid example_spines \<and> arrays_as_declared example_spines \<and>
   counts_fit example_config example_spines \<and> context_valid (fresh_context example_config) \<and>
   (\<exists>arrs. reserve_buffers granting () (arrays (fresh_context example_config))
             (vertices_asked example_spines) (indices_asked example_config example_spines) =
           Inr (arrs, ()) \<and>
      (\<exists>m. par_streamlines_draw_lines real_ops granting () (fresh_context example_config)
             example_spines =
           Inr ((fresh_context example_config)\<lparr>result := m, arrays := arrs\<rparr>, ()) \<and>
        unat (num_vertices m) = 6 \<and> unat (num_triangles m) = 4 \<and>
        length (vertex_positions m) = 6 \<and> length (vertex_annotations m) = 6))"
proof -
  let ?c = "fresh_context example_config"
  note ok = example_spines_ok
  note fr = fresh_reserved [OF ok(3), of example_config]
  from fr(2) obtain arrs where
    res: "reserve_buffers granting () (arrays ?c) (vertices_asked example_spines)
            (indices_asked example_config example_spines) = Inr (arrs, ())"
    by blast
  have fit: "counts_fit (config ?c) example_spines"
    using fr(1) by (simp only: fresh_context_simps)
  have res': "reserve_buffers granting () (arrays ?c) (vertices_asked example_spines)
            (indices_asked (config ?c) example_spines) = Inr (arrs, ())"
    using res by (simp only: fresh_context_simps)
  from draw_lines_counts [OF ok(1,2) fit fresh_context_simps(3) res', of real_ops]
  obtain m where
    "par_streamlines_draw_lines real_ops granting () ?c example_spines =
       Inr (?c\<lparr>result := m, arrays := arrs\<rparr>, ())"
    and "unat (num_vertices m) =
           (\<Sum>n\<leftarrow>spines_read example_spines.
              2 * unat n + (if spines_closed example_spines then 2 else 0))"
    and "unat (num_triangles m) =
           (\<Sum>n\<leftarrow>spines_read example_spines.
              2 * (unat n - 1) + (if spines_closed example_spines then 2 else 0))"
    and "length (vertex_positions m) = unat (num_vertices m)"
    and "length (vertex_annotations m) = unat (num_vertices m)"
    by blast
  then have "par_streamlines_draw_lines real_ops granting () ?c example_spines =
       Inr (?c\<lparr>result := m, arrays := arrs\<rparr>, ()) \<and>
        unat (num_vertices m) = 6 \<and> unat (num_triangles m) = 4 \<and>
        length (vertex_positions m) = 6 \<and> length (vertex_annotations m) = 6"
    by (simp add: spines_read_def example_spines_def)
  with res have "\<exists>arrs. reserve_buffers granting () (arrays ?c)
             (vertices_asked example_spines) (indices_asked example_config example_spines) =
           Inr (arrs, ()) \<and>
      (\<exists>m. par_streamlines_draw_lines real_ops granting () ?c example_spines =
           Inr (?c\<lparr>result := m, arrays := arrs\<rparr>, ()) \<and>
        unat (num_vertices m) = 6 \<and> unat (num_triangles m) = 4 \<and>
        length (vertex_positions m) = 6 \<and> length (vertex_annotations m) = 6)"
    by blast
  with ok(1,2) fr(1) fresh_context_simps(3) [of example_config] show ?thesis
    by blast
qed

text \<open>
  The preconditions of the claim do not suffice. 1025 open spines of 65535 vertices
  satisfy them and give a mesh of 134346750 vertices. With a fresh context and an
  allocator that grants every request, line 222 reserves the lengths, and at line 223
  \<open>pa___growf\<close> multiplies the 16 bytes of an annotation by 134346750 in \<open>int\<close>, which
  overflows: no mesh is returned.
\<close>

lemma many_long_spines_read: "spines_read many_long_spines = replicate 1025 65535"
  by (simp add: spines_read_def many_long_spines_def)

theorem draw_lines_counts_counterexample:
  "spine_list_valid many_long_spines \<and> arrays_as_declared many_long_spines \<and>
   mesh_sizing (spines_closed many_long_spines) (unat (num_spines many_long_spines))
     (spine_lengths many_long_spines) (0, 0) = Inr (134346750, 134344700) \<and>
   par_streamlines_draw_lines real_ops granting () (fresh_context example_config)
     many_long_spines = Inl SignedOverflow"
proof -
  have v: "spine_list_valid many_long_spines"
    by (simp add: spine_list_valid_def many_long_spines_read sum_list_replicate list_all_iff)
       (simp add: many_long_spines_def)
  have a: "arrays_as_declared many_long_spines"
    by (simp add: arrays_as_declared_def many_long_spines_def)
  have tv: "total_vertices False (replicate 1025 65535) = 134346750"
    by (simp add: total_vertices_def spine_vertex_count_def sum_list_replicate)
  have tt: "total_triangles False (replicate 1025 65535) = 134344700"
    by (simp add: total_triangles_def spine_triangle_count_def sum_list_replicate)
  have sz: "mesh_sizing (spines_closed many_long_spines) (unat (num_spines many_long_spines))
     (spine_lengths many_long_spines) (0, 0) = Inr (134346750, 134344700)"
    using mesh_sizing_ok [of 1025 "replicate 1025 65535" False "(0, 0)"]
    by (simp add: many_long_spines_def list_all_iff tv tt)
  have 1: "pa_add granting () 4 Null 134346750 = Inr (Array 134346750 134346750, ())"
    using pa_add_fresh [of 134346750 4 "()"] by simp
  have 2: "pa_add granting () 16 Null 134346750 = Inl SignedOverflow"
    by (simp add: pa_add_def pa___needgrow_def pa___growf_def Let_def int_fits_def)
  have res: "reserve_buffers granting () (arrays (fresh_context example_config)) 134346750 ni =
           Inl SignedOverflow" for ni
    unfolding reserve_buffers_def fresh_context_simps
    by (simp only: pa_clear_def pa_array.case sum.case prod.case pa_arrays.simps 1 2)
  have "par_streamlines_draw_lines real_ops granting () (fresh_context example_config)
     many_long_spines = Inl SignedOverflow"
    unfolding par_streamlines_draw_lines_def Let_def sz sum.case prod.case res
    by (rule refl)
  with v a sz show ?thesis by blast
qed

section \<open>C9: the contract of the call\<close>

text \<open>
  Claim C9. \<open>par_streamlines_draw_lines\<close> fails on the assertion of line 208 whenever some
  spine has length at most 1, and returns no mesh whenever the spine lengths do not sum to
  \<open>num_vertices\<close>: it fails on the assertion of line 507 when every spine has more than
  one vertex, its reads stay inside the arrays, the vertex and index counts are below
  \<open>2 ^ 31\<close>, the buffers of the context are \<open>NULL\<close> or arrays of a capacity that is not
  negative and lines 217--225 return. Conversely, when every spine length exceeds 1, the
  lengths sum to \<open>num_vertices\<close>, the arrays are as long as declared, the counts are below
  \<open>2 ^ 31\<close>, the buffers of the context are as said and lines 217--225 return, every
  assertion passes and a mesh is returned.
\<close>

theorem draw_lines_contract:
  "(\<not> list_all (\<lambda>n. 1 < unat n) (spines_read s) \<longrightarrow>
      par_streamlines_draw_lines ops realloc heap c s = Inl AssertionFailed) \<and>
   (sum_list (map unat (spines_read s)) \<noteq> unat (spines_num_vertices s) \<longrightarrow>
      (\<forall>r. par_streamlines_draw_lines ops realloc heap c s \<noteq> Inr r)) \<and>
   (sum_list (map unat (spines_read s)) \<noteq> unat (spines_num_vertices s) \<and>
    list_all (\<lambda>n. 1 < unat n) (spines_read s) \<and>
    unat (num_spines s) \<le> length (spine_lengths s) \<and>
    sum_list (map unat (spines_read s)) \<le> length (vertices s) \<and>
    counts_fit (config c) s \<and> context_valid c \<and>
    (\<exists>r. reserve_buffers realloc heap (arrays c) (vertices_asked s)
           (indices_asked (config c) s) = Inr r) \<longrightarrow>
      par_streamlines_draw_lines ops realloc heap c s = Inl AssertionFailed) \<and>
   (spine_list_valid s \<and> arrays_as_declared s \<and> counts_fit (config c) s \<and>
    context_valid c \<and>
    (\<exists>r. reserve_buffers realloc heap (arrays c) (vertices_asked s)
           (indices_asked (config c) s) = Inr r) \<longrightarrow>
      (\<exists>r. par_streamlines_draw_lines ops realloc heap c s = Inr r))"
proof (intro conjI impI allI)
  assume "\<not> list_all (\<lambda>n. 1 < unat n) (spines_read s)"
  then show "par_streamlines_draw_lines ops realloc heap c s = Inl AssertionFailed"
    by (rule draw_lines_bad_length)
next
  fix r
  assume ne: "sum_list (map unat (spines_read s)) \<noteq> unat (spines_num_vertices s)"
  show "par_streamlines_draw_lines ops realloc heap c s \<noteq> Inr r"
  proof
    assume "par_streamlines_draw_lines ops realloc heap c s = Inr r"
    then have "par_streamlines_draw_lines ops realloc heap c s = Inr (fst r, snd r)"
      by simp
    from draw_lines_Inr(2) [OF draw_lines_mesh(1,2) [OF this]] ne show False by simp
  qed
next
  assume a: "sum_list (map unat (spines_read s)) \<noteq> unat (spines_num_vertices s) \<and>
    list_all (\<lambda>n. 1 < unat n) (spines_read s) \<and>
    unat (num_spines s) \<le> length (spine_lengths s) \<and>
    sum_list (map unat (spines_read s)) \<le> length (vertices s) \<and>
    counts_fit (config c) s \<and> context_valid c \<and>
    (\<exists>r. reserve_buffers realloc heap (arrays c) (vertices_asked s)
           (indices_asked (config c) s) = Inr r)"
  then obtain arrs heap' where
    "reserve_buffers realloc heap (arrays c) (vertices_asked s)
       (indices_asked (config c) s) = Inr (arrs, heap')"
    by auto
  with a have "\<exists>m. par_streamlines_draw_lines ops realloc heap c s =
           (if sum_list (map unat (spines_read s)) = unat (spines_num_vertices s)
            then Inr (c\<lparr>result := m, arrays := arrs\<rparr>, heap') else Inl AssertionFailed)"
    by (intro draw_lines_run) simp_all
  with a show "par_streamlines_draw_lines ops realloc heap c s = Inl AssertionFailed" by simp
next
  assume a: "spine_list_valid s \<and> arrays_as_declared s \<and> counts_fit (config c) s \<and>
    context_valid c \<and>
    (\<exists>r. reserve_buffers realloc heap (arrays c) (vertices_asked s)
           (indices_asked (config c) s) = Inr r)"
  then obtain arrs heap' where
    "reserve_buffers realloc heap (arrays c) (vertices_asked s)
       (indices_asked (config c) s) = Inr (arrs, heap')"
    by auto
  with a have "\<exists>m. par_streamlines_draw_lines ops realloc heap c s =
           Inr (c\<lparr>result := m, arrays := arrs\<rparr>, heap')"
    by (intro draw_lines_ok) simp_all
  then show "\<exists>r. par_streamlines_draw_lines ops realloc heap c s = Inr r"
    by blast
qed

text \<open>With a fresh context and an allocator that grants every request, a spine of one
  vertex and a \<open>num_vertices\<close> that is too large fail their assertions, and the header's
  example returns a mesh.\<close>

theorem draw_lines_contract_witness:
  "par_streamlines_draw_lines real_ops granting () (fresh_context example_config) short_spine =
     Inl AssertionFailed \<and>
   par_streamlines_draw_lines real_ops granting () (fresh_context example_config)
     miscounted_spines = Inl AssertionFailed \<and>
   (\<exists>r. par_streamlines_draw_lines real_ops granting () (fresh_context example_config)
          example_spines = Inr r)"
proof -
  let ?c = "fresh_context example_config"
  have 1: "\<not> list_all (\<lambda>n. 1 < unat n) (spines_read short_spine)"
    by (simp add: spines_read_def short_spine_def)
  have tv: "total_vertices (spines_closed miscounted_spines) (spines_read miscounted_spines)
              < 134217728"
    by (simp add: spines_read_def miscounted_spines_def total_vertices_def
          spine_vertex_count_def)
  note fm = fresh_reserved [OF tv, of example_config]
  have m1: "sum_list (map unat (spines_read miscounted_spines)) \<noteq>
             unat (spines_num_vertices miscounted_spines)"
    by (simp add: spines_read_def miscounted_spines_def)
  have m2: "list_all (\<lambda>n. 1 < unat n) (spines_read miscounted_spines)"
    by (simp add: spines_read_def miscounted_spines_def)
  have m3: "unat (num_spines miscounted_spines) \<le> length (spine_lengths miscounted_spines)"
    by (simp add: miscounted_spines_def)
  have m4: "sum_list (map unat (spines_read miscounted_spines)) \<le>
              length (vertices miscounted_spines)"
    by (simp add: spines_read_def miscounted_spines_def)
  have m5: "counts_fit (config ?c) miscounted_spines"
    using fm(1) by (simp only: fresh_context_simps)
  have m6: "\<exists>r. reserve_buffers granting () (arrays ?c) (vertices_asked miscounted_spines)
           (indices_asked (config ?c) miscounted_spines) = Inr r"
    using fm(2) unfolding fresh_context_simps(1) by blast
  note v = fresh_context_simps(3) [of example_config]
  note fe = fresh_reserved [OF example_spines_ok(3), of example_config]
  have e3: "counts_fit (config ?c) example_spines"
    using fe(1) by (simp only: fresh_context_simps)
  have e5: "\<exists>r. reserve_buffers granting () (arrays ?c) (vertices_asked example_spines)
           (indices_asked (config ?c) example_spines) = Inr r"
    using fe(2) unfolding fresh_context_simps(1) by blast
  note t1 = draw_lines_contract [of short_spine real_ops granting "()" ?c,
      THEN conjunct1, THEN mp, OF 1]
  note t3 = draw_lines_contract [of miscounted_spines real_ops granting "()" ?c,
      THEN conjunct2, THEN conjunct2, THEN conjunct1, THEN mp,
      OF conjI [OF m1 conjI [OF m2 conjI [OF m3 conjI [OF m4 conjI [OF m5 conjI [OF v m6]]]]]]]
  note t4 = draw_lines_contract [of example_spines real_ops granting "()" ?c,
      THEN conjunct2, THEN conjunct2, THEN conjunct2, THEN mp,
      OF conjI [OF example_spines_ok(1) conjI [OF example_spines_ok(2)
        conjI [OF e3 conjI [OF v e5]]]]]
  from t1 t3 t4 show ?thesis by (intro conjI)
qed

lemma many_closed_spines_read: "spines_read many_closed_spines = replicate 1024 65535"
  by (simp add: spines_read_def many_closed_spines_def)

theorem draw_lines_contract_counterexample:
  "sum_list (map unat (spines_read undercounted_spines)) = 3 \<and>
   unat (spines_num_vertices undercounted_spines) = 2 \<and>
   arrays_as_declared undercounted_spines \<and>
   par_streamlines_draw_lines real_ops granting () (fresh_context example_config)
     undercounted_spines = Inl OutOfBounds \<and>
   spine_list_valid many_closed_spines \<and> arrays_as_declared many_closed_spines \<and>
   par_streamlines_draw_lines real_ops granting () (fresh_context example_config)
     many_closed_spines = Inl SignedOverflow"
proof -
  have u1: "sum_list (map unat (spines_read undercounted_spines)) = 3"
    "unat (spines_num_vertices undercounted_spines) = 2"
    "arrays_as_declared undercounted_spines"
    by (simp_all add: spines_read_def undercounted_spines_def arrays_as_declared_def)
  have usz: "mesh_sizing (spines_closed undercounted_spines)
      (unat (num_spines undercounted_spines)) (spine_lengths undercounted_spines) (0, 0) =
      Inr (6, 4)"
    by (simp add: undercounted_spines_def)
  have "wireframe (config (fresh_context example_config)) = False"
    by (simp add: fresh_context_simps example_config_def)
  then obtain arrs where
    ures: "reserve_buffers granting () (arrays (fresh_context example_config)) 6
             ((if wireframe (config (fresh_context example_config)) then 4 else 3) * 4) =
           Inr (arrs, ())"
    using reserve_fresh [of 6 12 "()"] by (simp add: fresh_context_simps)
  have uds: "draw_spines real_ops cfg arrs undercounted_spines nv nt = Inl OutOfBounds"
    for cfg arrs nv nt
    by (simp add: draw_spines_def undercounted_spines_def)
  have u: "par_streamlines_draw_lines real_ops granting () (fresh_context example_config)
     undercounted_spines = Inl OutOfBounds"
    unfolding par_streamlines_draw_lines_def Let_def usz sum.case prod.case ures uds
    by (rule refl)
  have v: "spine_list_valid many_closed_spines"
    by (simp add: spine_list_valid_def many_closed_spines_read sum_list_replicate list_all_iff)
       (simp add: many_closed_spines_def)
  have a: "arrays_as_declared many_closed_spines"
    by (simp add: arrays_as_declared_def many_closed_spines_def)
  have tv: "total_vertices True (replicate 1024 65535) = 134217728"
    by (simp add: total_vertices_def spine_vertex_count_def sum_list_replicate)
  have tt: "total_triangles True (replicate 1024 65535) = 134215680"
    by (simp add: total_triangles_def spine_triangle_count_def sum_list_replicate)
  have sz: "mesh_sizing (spines_closed many_closed_spines)
     (unat (num_spines many_closed_spines)) (spine_lengths many_closed_spines) (0, 0) =
     Inr (134217728, 134215680)"
    using mesh_sizing_ok [of 1024 "replicate 1024 65535" True "(0, 0)"]
    by (simp add: many_closed_spines_def list_all_iff tv tt)
  have 1: "pa_add granting () 4 Null 134217728 = Inr (Array 134217728 134217728, ())"
    using pa_add_fresh [of 134217728 4 "()"] by simp
  have 2: "pa_add granting () 16 Null 134217728 = Inl SignedOverflow"
    by (simp add: pa_add_def pa___needgrow_def pa___growf_def Let_def int_fits_def)
  have res: "reserve_buffers granting () (arrays (fresh_context example_config)) 134217728 ni =
           Inl SignedOverflow" for ni
    unfolding reserve_buffers_def fresh_context_simps
    by (simp only: pa_clear_def pa_array.case sum.case prod.case pa_arrays.simps 1 2)
  have "par_streamlines_draw_lines real_ops granting () (fresh_context example_config)
     many_closed_spines = Inl SignedOverflow"
    unfolding par_streamlines_draw_lines_def Let_def sz sum.case prod.case res
    by (rule refl)
  with u1 u v a show ?thesis by blast
qed

lemma unat_base_plus:
  fixes b :: u32
  assumes "unat b + x < 2 ^ 32"
  shows "unat (b + word_of_nat x) = unat b + x"
proof -
  have "unat (word_of_nat x :: u32) = x" using assms by (simp add: unat_of_nat)
  then show ?thesis using assms by (simp add: unat_word_ariths)
qed

lemma unat_base_plus_1:
  fixes b :: u32
  assumes "unat b + x + 1 < 2 ^ 32"
  shows "unat (b + word_of_nat x + 1) = unat b + x + 1"
proof -
  have "unat (b + word_of_nat x) = unat b + x" using assms by (intro unat_base_plus) simp
  then show ?thesis using assms by (simp add: unat_word_ariths)
qed

lemma quad_indices_bound:
  assumes "1 \<le> i" and "unat b + 2 * i + 1 < 2 ^ 32" and "x \<in> set (quad_indices wire b i)"
  shows "unat b \<le> unat x \<and> unat x \<le> unat b + 2 * i + 1"
proof -
  have a0: "unat (b + word_of_nat ((i - 1) * 2)) = unat b + (i - 1) * 2"
    using assms(1,2) by (intro unat_base_plus) simp
  have a1: "unat (b + word_of_nat ((i - 1) * 2) + 1) = unat b + (i - 1) * 2 + 1"
    using assms(1,2) by (intro unat_base_plus_1) simp
  have b0: "unat (b + word_of_nat (i * 2)) = unat b + i * 2"
    using assms(1,2) by (intro unat_base_plus) simp
  have b1: "unat (b + word_of_nat (i * 2) + 1) = unat b + i * 2 + 1"
    using assms(1,2) by (intro unat_base_plus_1) simp
  from assms(3) have "x = b + word_of_nat ((i - 1) * 2) \<or> x = b + word_of_nat ((i - 1) * 2) + 1
      \<or> x = b + word_of_nat (i * 2) \<or> x = b + word_of_nat (i * 2) + 1"
    by (auto simp: quad_indices_def Let_def split: if_splits)
  then show ?thesis using a0 a1 b0 b1 assms(1) by auto
qed

lemma interior_loop_indices:
  "1 \<le> segment_index w \<Longrightarrow> unat b + 2 * n \<le> 2 ^ 32 \<Longrightarrow>
   x \<in> set (dst_indices (interior_loop ops t wire b n src w)) \<Longrightarrow>
   x \<in> set (dst_indices w) \<or> (unat b \<le> unat x \<and> unat x < unat b + 2 * n)"
proof (induction ops t wire b n src w rule: interior_loop.induct)
  case (1 ops t wire b n src w)
  show ?case
  proof (cases "Suc (segment_index w) < n")
    case True
    from "1.prems"(3) have
      "x \<in> set (dst_indices (interior_loop ops t wire b n src (interior_step ops t wire b src w)))"
      by (simp add: interior_loop_step [OF True])
    from "1.IH" [OF True _ "1.prems"(2) this] "1.prems"(1)
    have "x \<in> set (dst_indices w) \<or> x \<in> set (quad_indices wire b (segment_index w))
            \<or> (unat b \<le> unat x \<and> unat x < unat b + 2 * n)"
      by (auto simp: interior_step_simps)
    moreover have "unat b \<le> unat x \<and> unat x < unat b + 2 * n"
      if "x \<in> set (quad_indices wire b (segment_index w))"
      using quad_indices_bound [OF "1.prems"(1) _ that] True "1.prems"(2) by simp
    ultimately show ?thesis by blast
  next
    case False
    then show ?thesis using "1.prems"(3) by (simp add: interior_loop_done)
  qed
qed

lemma interior_walk_index:
  "1 < unat sl \<Longrightarrow> segment_index (interior_walk ops cfg cl b sl src) = unat sl - 1"
  using interior_loop_segment_index [of "first_vertex ops (thickness cfg) cl (unat sl) src"
    "unat sl" ops "thickness cfg" "wireframe cfg" b src]
  by (simp add: interior_walk_def first_vertex_simps)

lemma draw_spine_open:
  assumes "1 < unat sl"
  shows "draw_spine ops cfg False b sl src =
     \<lparr>out_positions = dst_positions (interior_walk ops cfg False b sl src) @
        pair_positions ops (src ! (unat sl - 1))
          (cap_offset ops (thickness cfg) (pn (interior_walk ops cfg False b sl src))),
      out_annotations =
        fix_u ops (u_mode cfg) (distance_along_spine (interior_walk ops cfg False b sl src)) sl
          (unat sl)
          (dst_annotations (interior_walk ops cfg False b sl src) @
           pair_annotations ops (distance_along_spine (interior_walk ops cfg False b sl src))
             (cap_offset ops (thickness cfg) (pn (interior_walk ops cfg False b sl src)))),
      out_lengths =
        replicate (2 * unat sl) (distance_along_spine (interior_walk ops cfg False b sl src)),
      out_indices = dst_indices (interior_walk ops cfg False b sl src) @
        quad_indices (wireframe cfg) b (unat sl - 1)\<rparr>"
  using interior_walk_index [OF assms, of ops cfg False b src]
  by (simp add: draw_spine_def Let_def last_vertex_simps last_offset_def
        interior_walk_def [symmetric])

lemma draw_spine_closed:
  assumes "1 < unat sl"
  shows "draw_spine ops cfg True b sl src =
     \<lparr>out_positions = dst_positions (interior_walk ops cfg True b sl src) @
        pair_positions ops (src ! (unat sl - 1))
          (miter_offset ops (thickness cfg) (pn (interior_walk ops cfg True b sl src))
             (segment_normal ops (src ! (unat sl - 1)) (src ! 0))) @
        pair_positions ops (src ! 0) (first_offset ops (thickness cfg) True (unat sl) src),
      out_annotations =
        fix_u ops (u_mode cfg)
          (f_add ops (distance_along_spine (interior_walk ops cfg True b sl src))
             (segment_length ops (src ! 0) (src ! 1))) sl (unat (sl + 1))
          (dst_annotations (interior_walk ops cfg True b sl src) @
           pair_annotations ops (distance_along_spine (interior_walk ops cfg True b sl src))
             (miter_offset ops (thickness cfg) (pn (interior_walk ops cfg True b sl src))
                (segment_normal ops (src ! (unat sl - 1)) (src ! 0))) @
           pair_annotations ops (distance_along_spine (interior_walk ops cfg True b sl src))
             (miter_offset ops (thickness cfg) (pn (interior_walk ops cfg True b sl src))
                (segment_normal ops (src ! (unat sl - 1)) (src ! 0)))),
      out_lengths =
        replicate (2 * unat (sl + 1))
          (f_add ops (distance_along_spine (interior_walk ops cfg True b sl src))
             (segment_length ops (src ! 0) (src ! 1))),
      out_indices = dst_indices (interior_walk ops cfg True b sl src) @
        quad_indices (wireframe cfg) b (unat sl - 1) @
        quad_indices (wireframe cfg) b (Suc (unat sl - 1))\<rparr>"
  using interior_walk_index [OF assms, of ops cfg True b src]
  by (simp add: draw_spine_def Let_def last_vertex_simps seam_pair_simps last_offset_def
        first_vertex_simps pair_positions_def interior_walk_def [symmetric])

lemma interior_walk_indices:
  assumes "unat b + 2 * unat sl \<le> 2 ^ 32"
    and "x \<in> set (dst_indices (interior_walk ops cfg cl b sl src))"
  shows "unat b \<le> unat x \<and> unat x < unat b + 2 * unat sl"
  using interior_loop_indices [OF _ assms(1) assms(2) [unfolded interior_walk_def]]
  by (simp add: first_vertex_simps)

lemma draw_spine_indices:
  assumes sl: "1 < unat sl" and fit: "unat b + spine_vertex_count cl sl \<le> 2 ^ 32"
    and x: "x \<in> set (out_indices (draw_spine ops cfg cl b sl src))"
  shows "unat b \<le> unat x \<and> unat x < unat b + spine_vertex_count cl sl"
proof -
  from fit have fit': "unat b + 2 * unat sl \<le> 2 ^ 32" by (simp add: spine_vertex_count_def)
  have in2: "unat b \<le> unat y \<and> unat y < unat b + 2 * unat sl"
    if "y \<in> set (quad_indices (wireframe cfg) b (unat sl - 1))" for y
  proof -
    have a: "1 \<le> unat sl - 1" using sl by simp
    have c: "unat b + 2 * (unat sl - 1) + 1 < 2 ^ 32" using sl fit' by simp
    from quad_indices_bound [OF a c that] sl show ?thesis by auto
  qed
  have in3: "unat b \<le> unat y \<and> unat y < unat b + 2 * unat sl + 2"
    if "y \<in> set (quad_indices (wireframe cfg) b (Suc (unat sl - 1)))" and cl for y
  proof -
    have a: "1 \<le> Suc (unat sl - 1)" by simp
    have c: "unat b + 2 * Suc (unat sl - 1) + 1 < 2 ^ 32"
      using sl fit that(2) by (simp add: spine_vertex_count_def)
    from quad_indices_bound [OF a c that(1)] sl show ?thesis by auto
  qed
  show ?thesis
  proof (cases cl)
    case True
    with x have "x \<in> set (dst_indices (interior_walk ops cfg True b sl src))
        \<or> x \<in> set (quad_indices (wireframe cfg) b (unat sl - 1))
        \<or> x \<in> set (quad_indices (wireframe cfg) b (Suc (unat sl - 1)))"
      by (auto simp: draw_spine_closed [OF sl])
    then show ?thesis
      using interior_walk_indices [OF fit', of x ops cfg True src] in2 [of x] in3 [of x] True
      by (auto simp: spine_vertex_count_def)
  next
    case False
    with x have "x \<in> set (dst_indices (interior_walk ops cfg False b sl src))
        \<or> x \<in> set (quad_indices (wireframe cfg) b (unat sl - 1))"
      by (auto simp: draw_spine_open [OF sl])
    then show ?thesis
      using interior_walk_indices [OF fit', of x ops cfg False src] in2 [of x] False
      by (auto simp: spine_vertex_count_def)
  qed
qed

lemma spines_loop_indices:
  "spines_loop ops cfg cl arrs k ls src b dst = Inr (src', dst') \<Longrightarrow>
   list_all (\<lambda>n. 1 < unat n) (take k ls) \<Longrightarrow>
   unat b + total_vertices cl (take k ls) < 2 ^ 32 \<Longrightarrow>
   x \<in> set (out_indices dst') \<Longrightarrow>
   x \<in> set (out_indices dst) \<or> unat x < unat b + total_vertices cl (take k ls)"
proof (induction ops cfg cl arrs k ls src b dst rule: spines_loop.induct)
  case (1 ops cfg cl arrs ls src b dst)
  then show ?case by simp
next
  case (2 ops cfg cl arrs k src b dst)
  then show ?case by simp
next
  case (3 ops cfg cl arrs k sl ls src b dst)
  let ?sp = "draw_spine ops cfg cl b sl src"
  let ?b1 = "b + word_of_nat (unat sl * 2 + (if cl then 2 else 0))"
  from "3.prems"(2) have sl: "1 < unat sl" and rest: "list_all (\<lambda>n. 1 < unat n) (take k ls)"
    by simp_all
  from "3.prems"(1) have ok: "\<not> (length src < unat sl \<or> length src < 2)"
    by (auto split: if_splits)
  from "3.prems"(1) have caps: "\<not> (pa_capacity (positions_array arrs) < length (out_positions dst) + length (out_positions ?sp)
            \<or> pa_capacity (annotations_array arrs) < length (out_annotations dst) + length (out_annotations ?sp)
            \<or> pa_capacity (lengths_array arrs) < length (out_lengths dst) + length (out_lengths ?sp)
            \<or> pa_capacity (indices_array arrs) < length (out_indices dst) + length (out_indices ?sp))"
    by (auto split: if_splits)
  from "3.prems"(1) ok caps have run:
    "spines_loop ops cfg cl arrs k ls (drop (unat sl) src) ?b1 (append_buffers dst ?sp) =
       Inr (src', dst')"
    by simp
  from "3.prems"(3) have fit: "unat b + spine_vertex_count cl sl + total_vertices cl (take k ls) < 2 ^ 32"
    by (simp add: total_Cons)
  have "unat sl * 2 + (if cl then 2 else 0) = spine_vertex_count cl sl"
    by (simp add: spine_vertex_count_def)
  then have b1: "unat ?b1 = unat b + spine_vertex_count cl sl"
    using fit unat_base_plus [of b "spine_vertex_count cl sl"] by simp
  have f1: "unat ?b1 + total_vertices cl (take k ls) < 2 ^ 32"
    unfolding b1 using fit .
  from "3.IH" [OF ok caps run rest f1 "3.prems"(4)]
  have "x \<in> set (out_indices (append_buffers dst ?sp)) \<or>
        unat x < unat b + spine_vertex_count cl sl + total_vertices cl (take k ls)"
    unfolding b1 .
  moreover have "unat x < unat b + spine_vertex_count cl sl" if "x \<in> set (out_indices ?sp)"
    using draw_spine_indices [OF sl _ that] fit by simp
  ultimately show ?case
    by (auto simp: append_buffers_simps total_Cons)
qed

section \<open>C2: the index buffer\<close>

text \<open>
  Claim C2. The mesh returned by \<open>par_streamlines_draw_lines\<close> satisfies the invariant of
  the index buffer: every entry of \<open>triangle_indices\<close> is strictly less than
  \<open>num_vertices\<close>, and the length of \<open>triangle_indices\<close> is \<open>num_triangles\<close> times the
  number of indices per triangle (3 in filled mode, 4 in wireframe mode).
\<close>

theorem draw_lines_index_buffer:
  assumes "par_streamlines_draw_lines ops realloc heap c s = Inr (c', heap')"
  shows "(\<forall>i \<in> set (triangle_indices (result c')). i < num_vertices (result c')) \<and>
         length (triangle_indices (result c')) =
           unat (num_triangles (result c')) * (if wireframe (config c) then 4 else 3)"
proof -
  have "(\<forall>i \<in> set (triangle_indices m). i < num_vertices m) \<and>
        length (triangle_indices m) = unat (num_triangles m) * (if wireframe cfg then 4 else 3)"
    if m: "mesh_sizing (spines_closed s) (unat (num_spines s)) (spine_lengths s) (0, 0) =
              Inr (num_vertices m, num_triangles m)"
          "draw_spines ops cfg arrs s (num_vertices m) (num_triangles m) = Inr m" for m cfg arrs
  proof -
    note r = draw_lines_Inr [OF m]
    from r(11) obtain arrs src' where
      lp: "spines_loop ops cfg (spines_closed s) arrs (unat (num_spines s)) (spine_lengths s) (vertices s) 0 no_buffers =
           Inr (src', \<lparr>out_positions = vertex_positions m,
                       out_annotations = vertex_annotations m,
                       out_lengths = vertex_lengths m, out_indices = triangle_indices m\<rparr>)"
      by blast
    have tv: "total_vertices (spines_closed s) (spines_read s) < 2 ^ 32"
      using r(5) unsigned_less [of "num_vertices m", where ?'a = nat] by simp
    have "i < num_vertices m" if "i \<in> set (triangle_indices m)" for i
    proof -
      from spines_loop_indices [OF lp, of i] r(1) tv that
      have "unat i < total_vertices (spines_closed s) (spines_read s)"
        by (simp add: spines_read_def no_buffers_simps)
      then show ?thesis using r(5) by (simp add: word_less_nat_alt)
    qed
    moreover have "length (triangle_indices m) =
        unat (num_triangles m) * (if wireframe cfg then 4 else 3)"
      using r(6,9) by (simp add: indices_per_triangle_def)
    ultimately show ?thesis by blast
  qed
  from this [OF draw_lines_mesh(1,2) [OF assms]] show ?thesis .
qed

text \<open>The header's example returns a mesh, which has 12 indices, all below 6.\<close>

theorem draw_lines_index_buffer_witness:
  "\<exists>ctx m. par_streamlines_draw_lines real_ops granting () (fresh_context example_config) example_spines =
         Inr (ctx, ()) \<and> result ctx = m \<and>
       list_all (\<lambda>i. unat i < 6) (triangle_indices m) \<and> length (triangle_indices m) = 12"
proof -
  from draw_lines_fresh [OF example_spines_ok, of real_ops example_config] obtain ctx where
    call: "par_streamlines_draw_lines real_ops granting () (fresh_context example_config) example_spines =
             Inr (ctx, ())"
    by blast
  define m where "m = result ctx"
  note m = draw_lines_mesh(1,2) [OF call, unfolded fresh_context_simps, folded m_def]
  from draw_lines_Inr(5,6) [OF m] have
    "unat (num_vertices m) = 6" "unat (num_triangles m) = 4"
    by (simp_all add: spines_read_def example_spines_def total_vertices_def
          total_triangles_def spine_vertex_count_def spine_triangle_count_def)
  with draw_lines_index_buffer [OF call, folded m_def, unfolded fresh_context_simps] have
    "list_all (\<lambda>i. unat i < 6) (triangle_indices m) \<and> length (triangle_indices m) = 12"
    by (simp add: example_config_def list_all_iff word_less_nat_alt)
  with call m_def show ?thesis by blast
qed

lemma tuples_closed_append:
  "tuples_closed xs \<Longrightarrow> tuples_closed ys \<Longrightarrow> tuples_closed (xs @ ys)"
  by (induction xs rule: tuples_closed.induct) simp_all

lemma tuples_closed_quad: "tuples_closed (quad_indices True b i)"
  by (simp add: quad_indices_def Let_def)

lemma tuples_closed_nth:
  "tuples_closed xs \<Longrightarrow> 4 * k + 3 < length xs \<Longrightarrow> xs ! (4 * k + 3) = xs ! (4 * k)"
proof (induction xs arbitrary: k rule: tuples_closed.induct)
  case 1
  then show ?case by simp
next
  case (2 a b c d rest)
  show ?case
  proof (cases k)
    case 0
    then show ?thesis using "2.prems" by simp
  next
    case (Suc j)
    have "(a # b # c # d # rest) ! (4 * k + 3) = rest ! (4 * j + 3)"
      and "(a # b # c # d # rest) ! (4 * k) = rest ! (4 * j)"
      by (simp_all add: Suc nth_Cons' add.commute)
    then show ?thesis using "2.IH" [of j] "2.prems" Suc by simp
  qed
qed simp_all

lemma interior_loop_tuples:
  "tuples_closed (dst_indices w) \<Longrightarrow>
   tuples_closed (dst_indices (interior_loop ops t True b n src w))"
proof (induction ops t "True" b n src w rule: interior_loop.induct)
  case (1 ops t b n src w)
  show ?case
  proof (cases "Suc (segment_index w) < n")
    case True
    then show ?thesis using 1
      by (simp add: interior_loop_step interior_step_simps tuples_closed_append
            tuples_closed_quad)
  next
    case False
    then show ?thesis using "1.prems" by (simp add: interior_loop_done)
  qed
qed

lemma draw_spine_tuples:
  assumes "wireframe cfg"
  shows "tuples_closed (out_indices (draw_spine ops cfg cl b sl src))"
proof -
  have "tuples_closed (dst_indices (interior_loop ops (thickness cfg) True b (unat sl) src
          (first_vertex ops (thickness cfg) c (unat sl) src)))" for c
    by (rule interior_loop_tuples) (simp add: first_vertex_simps)
  then show ?thesis using assms
    by (cases cl)
       (simp_all add: draw_spine_def Let_def last_vertex_simps seam_pair_simps
          tuples_closed_append tuples_closed_quad)
qed

lemma spines_loop_tuples:
  "spines_loop ops cfg cl arrs k ls src b dst = Inr (src', dst') \<Longrightarrow> wireframe cfg \<Longrightarrow>
   tuples_closed (out_indices dst) \<Longrightarrow> tuples_closed (out_indices dst')"
proof (induction ops cfg cl arrs k ls src b dst rule: spines_loop.induct)
  case (3 ops cfg cl arrs k sl ls src b dst)
  let ?sp = "draw_spine ops cfg cl b sl src"
  from "3.prems"(1) have ok: "\<not> (length src < unat sl \<or> length src < 2)"
    by (auto split: if_splits)
  from "3.prems"(1) have caps: "\<not> (pa_capacity (positions_array arrs) < length (out_positions dst) + length (out_positions ?sp)
            \<or> pa_capacity (annotations_array arrs) < length (out_annotations dst) + length (out_annotations ?sp)
            \<or> pa_capacity (lengths_array arrs) < length (out_lengths dst) + length (out_lengths ?sp)
            \<or> pa_capacity (indices_array arrs) < length (out_indices dst) + length (out_indices ?sp))"
    by (auto split: if_splits)
  from "3.prems"(1) ok caps have run:
    "spines_loop ops cfg cl arrs k ls (drop (unat sl) src)
       (b + word_of_nat (unat sl * 2 + (if cl then 2 else 0))) (append_buffers dst ?sp) =
       Inr (src', dst')"
    by simp
  show ?case
    by (rule "3.IH" [OF ok caps run "3.prems"(2)])
       (simp add: append_buffers_simps tuples_closed_append "3.prems"(3)
          draw_spine_tuples [OF "3.prems"(2)])
qed simp_all

section \<open>C10: wireframe mode\<close>

text \<open>
  Claim C10. For the same spine list, the mesh returned in wireframe mode has the same
  number of triangles as the mesh returned in filled mode and an index buffer exactly 4/3
  as long (4 indices per triangle instead of 3); and in every 4-tuple of the wireframe
  index buffer the 4th index equals the first.
\<close>

theorem wireframe_index_buffer:
  assumes "wireframe (config cw)" and "\<not> wireframe (config cf)"
    and "par_streamlines_draw_lines ops realloc_w heap_w cw s = Inr (cw', heap_w')"
    and "par_streamlines_draw_lines ops realloc_f heap_f cf s = Inr (cf', heap_f')"
  shows "3 * length (triangle_indices (result cw')) = 4 * length (triangle_indices (result cf')) \<and>
         num_triangles (result cw') = num_triangles (result cf') \<and>
         length (triangle_indices (result cw')) = 4 * unat (num_triangles (result cw')) \<and>
         length (triangle_indices (result cf')) = 3 * unat (num_triangles (result cf')) \<and>
         (\<forall>k < unat (num_triangles (result cw')).
            triangle_indices (result cw') ! (4 * k + 3) = triangle_indices (result cw') ! (4 * k))"
proof -
  have "3 * length (triangle_indices mw) = 4 * length (triangle_indices mf) \<and>
        num_triangles mw = num_triangles mf \<and>
        length (triangle_indices mw) = 4 * unat (num_triangles mw) \<and>
        length (triangle_indices mf) = 3 * unat (num_triangles mf) \<and>
        (\<forall>k < unat (num_triangles mw).
           triangle_indices mw ! (4 * k + 3) = triangle_indices mw ! (4 * k))"
    if cw: "wireframe cw" and cf: "\<not> wireframe cf"
      and mw: "mesh_sizing (spines_closed s) (unat (num_spines s)) (spine_lengths s) (0, 0) =
                 Inr (num_vertices mw, num_triangles mw)"
              "draw_spines ops cw arrsw s (num_vertices mw) (num_triangles mw) = Inr mw"
      and mf: "mesh_sizing (spines_closed s) (unat (num_spines s)) (spine_lengths s) (0, 0) =
                 Inr (num_vertices mf, num_triangles mf)"
              "draw_spines ops cf arrsf s (num_vertices mf) (num_triangles mf) = Inr mf"
    for cw cf mw mf arrsw arrsf
  proof -
    note w = draw_lines_Inr [OF mw] and f = draw_lines_Inr [OF mf]
    have lw: "length (triangle_indices mw) = 4 * unat (num_triangles mw)"
      using w(6,9) cw by (simp add: indices_per_triangle_def)
    have lf: "length (triangle_indices mf) = 3 * unat (num_triangles mf)"
      using f(6,9) cf by (simp add: indices_per_triangle_def)
    have "unat (num_triangles mw) = unat (num_triangles mf)" using w(6) f(6) by simp
    then have eq: "num_triangles mw = num_triangles mf" by (simp add: word_unat_eq_iff)
    from w(11) obtain arrs src' where
      "spines_loop ops cw (spines_closed s) arrs (unat (num_spines s)) (spine_lengths s) (vertices s) 0 no_buffers =
           Inr (src', \<lparr>out_positions = vertex_positions mw,
                       out_annotations = vertex_annotations mw,
                       out_lengths = vertex_lengths mw, out_indices = triangle_indices mw\<rparr>)"
      by blast
    from spines_loop_tuples [OF this cw] have tc: "tuples_closed (triangle_indices mw)"
      by (simp add: no_buffers_simps)
    have "triangle_indices mw ! (4 * k + 3) = triangle_indices mw ! (4 * k)"
      if "k < unat (num_triangles mw)" for k
      using tuples_closed_nth [OF tc, of k] that lw by simp
    then show ?thesis using lw lf eq by simp
  qed
  from this [OF assms(1,2) draw_lines_mesh(1,2) [OF assms(3)] draw_lines_mesh(1,2) [OF assms(4)]]
  show ?thesis .
qed

text \<open>The header's example: 16 indices in wireframe mode, 12 in filled mode.\<close>

theorem wireframe_index_buffer_witness:
  "\<exists>cw cf mw mf.
     par_streamlines_draw_lines real_ops granting () (fresh_context wireframe_config)
       example_spines = Inr (cw, ()) \<and> result cw = mw \<and>
     par_streamlines_draw_lines real_ops granting () (fresh_context example_config)
       example_spines = Inr (cf, ()) \<and> result cf = mf \<and>
     length (triangle_indices mw) = 16 \<and> length (triangle_indices mf) = 12 \<and>
     list_all (\<lambda>k. triangle_indices mw ! (4 * k + 3) = triangle_indices mw ! (4 * k))
       [0, 1, 2, 3]"
proof -
  from draw_lines_fresh [OF example_spines_ok, of real_ops wireframe_config] obtain cw where
    callw: "par_streamlines_draw_lines real_ops granting () (fresh_context wireframe_config)
              example_spines = Inr (cw, ())"
    by blast
  from draw_lines_fresh [OF example_spines_ok, of real_ops example_config] obtain cf where
    callf: "par_streamlines_draw_lines real_ops granting () (fresh_context example_config)
              example_spines = Inr (cf, ())"
    by blast
  define mw where "mw = result cw"
  define mf where "mf = result cf"
  note mw = draw_lines_mesh(1,2) [OF callw, unfolded fresh_context_simps, folded mw_def]
    and mf = draw_lines_mesh(1,2) [OF callf, unfolded fresh_context_simps, folded mf_def]
  have w: "wireframe (config (fresh_context wireframe_config))"
    and f: "\<not> wireframe (config (fresh_context example_config))"
    by (simp_all add: fresh_context_simps wireframe_config_def example_config_def)
  from draw_lines_Inr(6) [OF mw] have nt: "unat (num_triangles mw) = 4"
    by (simp add: spines_read_def example_spines_def total_triangles_def
          spine_triangle_count_def)
  from draw_lines_Inr(6) [OF mf] have nf: "unat (num_triangles mf) = 4"
    by (simp add: spines_read_def example_spines_def total_triangles_def
          spine_triangle_count_def)
  from wireframe_index_buffer [OF w f callw callf, folded mw_def mf_def] nt nf have
    len: "length (triangle_indices mw) = 16 \<and> length (triangle_indices mf) = 12"
    and q: "\<And>k. k < 4 \<Longrightarrow> triangle_indices mw ! (4 * k + 3) = triangle_indices mw ! (4 * k)"
    by simp_all
  from len q [of 0] q [of 1] q [of 2] q [of 3] have
    "length (triangle_indices mw) = 16 \<and> length (triangle_indices mf) = 12 \<and>
     list_all (\<lambda>k. triangle_indices mw ! (4 * k + 3) = triangle_indices mw ! (4 * k))
       [0, 1, 2, 3]"
    by simp
  with callw callf mw_def mf_def show ?thesis by blast
qed

lemma append_buffers_assoc:
  "append_buffers (append_buffers a b) c = append_buffers a (append_buffers b c)"
  by (simp add: append_buffers_def)

lemma append_no_buffers: "append_buffers a no_buffers = a"
  by (simp add: append_buffers_def no_buffers_def)

lemma spines_loop_prefix:
  "spines_loop ops cfg cl arrs k ls src b dst = Inr (src', dst') \<Longrightarrow>
   \<exists>ext. dst' = append_buffers dst ext"
proof (induction ops cfg cl arrs k ls src b dst rule: spines_loop.induct)
  case (1 ops cfg cl arrs ls src b dst)
  then show ?case using append_no_buffers [of dst] by (metis Pair_inject spines_loop.simps(1) sum.inject(2))
next
  case (3 ops cfg cl arrs k sl ls src b dst)
  let ?sp = "draw_spine ops cfg cl b sl src"
  from "3.prems"(1) have ok: "\<not> (length src < unat sl \<or> length src < 2)"
    by (auto split: if_splits)
  from "3.prems"(1) have caps: "\<not> (pa_capacity (positions_array arrs) < length (out_positions dst) + length (out_positions ?sp)
            \<or> pa_capacity (annotations_array arrs) < length (out_annotations dst) + length (out_annotations ?sp)
            \<or> pa_capacity (lengths_array arrs) < length (out_lengths dst) + length (out_lengths ?sp)
            \<or> pa_capacity (indices_array arrs) < length (out_indices dst) + length (out_indices ?sp))"
    by (auto split: if_splits)
  from "3.prems"(1) ok caps have run:
    "spines_loop ops cfg cl arrs k ls (drop (unat sl) src)
       (b + word_of_nat (unat sl * 2 + (if cl then 2 else 0))) (append_buffers dst ?sp) =
       Inr (src', dst')"
    by simp
  from "3.IH" [OF ok caps run] obtain ext where "dst' = append_buffers (append_buffers dst ?sp) ext"
    by blast
  then show ?case by (auto simp: append_buffers_assoc)
qed simp

lemma spine_Cons:
  "spine_start (n # ls) (Suc j) = unat n + spine_start ls j"
  "spine_base cl (n # ls) (Suc j) = spine_vertex_count cl n + spine_base cl ls j"
  "spine_index_base cfg cl (n # ls) (Suc j) =
     indices_per_triangle cfg * spine_triangle_count cl n + spine_index_base cfg cl ls j"
  "spine_start ls 0 = 0" "spine_base cl ls 0 = 0" "spine_index_base cfg cl ls 0 = 0"
  by (simp_all add: spine_start_def spine_base_def spine_index_base_def total_Cons
        add_mult_distrib2)

lemma spines_loop_block:
  "spines_loop ops cfg cl arrs k ls src b dst = Inr (src', dst') \<Longrightarrow>
   list_all (\<lambda>n. 1 < unat n) (take k ls) \<Longrightarrow> j < k \<Longrightarrow>
   \<exists>pre post.
     dst' = append_buffers
              (append_buffers pre
                 (draw_spine ops cfg cl (b + word_of_nat (spine_base cl ls j)) (ls ! j)
                    (drop (spine_start ls j) src))) post \<and>
     length (out_positions pre) = length (out_positions dst) + spine_base cl ls j \<and>
     length (out_annotations pre) = length (out_annotations dst) + spine_base cl ls j \<and>
     length (out_indices pre) = length (out_indices dst) + spine_index_base cfg cl ls j"
proof (induction ops cfg cl arrs k ls src b dst arbitrary: j rule: spines_loop.induct)
  case (3 ops cfg cl arrs k sl ls src b dst)
  let ?sp = "draw_spine ops cfg cl b sl src"
  let ?b1 = "b + word_of_nat (unat sl * 2 + (if cl then 2 else 0))"
  from "3.prems"(2) have sl: "1 < unat sl" and rest: "list_all (\<lambda>n. 1 < unat n) (take k ls)"
    by simp_all
  from "3.prems"(1) have ok: "\<not> (length src < unat sl \<or> length src < 2)"
    by (auto split: if_splits)
  from "3.prems"(1) have caps: "\<not> (pa_capacity (positions_array arrs) < length (out_positions dst) + length (out_positions ?sp)
            \<or> pa_capacity (annotations_array arrs) < length (out_annotations dst) + length (out_annotations ?sp)
            \<or> pa_capacity (lengths_array arrs) < length (out_lengths dst) + length (out_lengths ?sp)
            \<or> pa_capacity (indices_array arrs) < length (out_indices dst) + length (out_indices ?sp))"
    by (auto split: if_splits)
  from "3.prems"(1) ok caps have run:
    "spines_loop ops cfg cl arrs k ls (drop (unat sl) src) ?b1 (append_buffers dst ?sp) =
       Inr (src', dst')"
    by simp
  show ?case
  proof (cases j)
    case 0
    from spines_loop_prefix [OF run] obtain ext where
      "dst' = append_buffers (append_buffers dst ?sp) ext" by blast
    then show ?thesis using 0 by (auto simp: spine_Cons)
  next
    case (Suc i)
    with "3.prems"(3) have i: "i < k" by simp
    have b: "?b1 + word_of_nat (spine_base cl ls i) =
             b + word_of_nat (spine_base cl (sl # ls) (Suc i))"
      by (simp add: spine_Cons spine_vertex_count_def)
    from "3.IH" [OF ok caps run rest i] obtain pre post where
      "dst' = append_buffers
              (append_buffers pre
                 (draw_spine ops cfg cl (?b1 + word_of_nat (spine_base cl ls i)) (ls ! i)
                    (drop (spine_start ls i) (drop (unat sl) src)))) post"
      and "length (out_positions pre) =
             length (out_positions (append_buffers dst ?sp)) + spine_base cl ls i"
      and "length (out_annotations pre) =
             length (out_annotations (append_buffers dst ?sp)) + spine_base cl ls i"
      and "length (out_indices pre) =
             length (out_indices (append_buffers dst ?sp)) + spine_index_base cfg cl ls i"
      by blast
    then show ?thesis
      unfolding b using Suc
      by (intro exI [of _ pre] exI [of _ post])
         (simp add: spine_Cons append_buffers_simps length_draw_spine [OF sl] add.commute)
  qed
qed simp_all

lemma spines_read_nth:
  "j < unat (num_spines s) \<Longrightarrow> spines_read s ! j = spine_lengths s ! j"
  "j < unat (num_spines s) \<Longrightarrow> take j (spines_read s) = take j (spine_lengths s)"
  by (simp_all add: spines_read_def min_def)

lemma draw_lines_long_spine:
  assumes "mesh_sizing (spines_closed s) (unat (num_spines s)) (spine_lengths s) (0, 0) =
              Inr (num_vertices m, num_triangles m)"
          "draw_spines ops cfg arrs s (num_vertices m) (num_triangles m) = Inr m" and "j < unat (num_spines s)"
  shows "1 < unat (spines_read s ! j)"
proof -
  from draw_lines_Inr(1,3) [OF assms(1,2)] assms(3) have
    "list_all (\<lambda>n. 1 < unat n) (spines_read s)" and "j < length (spines_read s)"
    by (simp_all add: spines_read_def)
  then show ?thesis by (simp add: list_all_length)
qed

lemma draw_lines_block:
  assumes m: "mesh_sizing (spines_closed s) (unat (num_spines s)) (spine_lengths s) (0, 0) =
                 Inr (num_vertices m, num_triangles m)"
             "draw_spines ops cfg arrs s (num_vertices m) (num_triangles m) = Inr m" and j: "j < unat (num_spines s)"
  shows "\<exists>pre post.
     \<lparr>out_positions = vertex_positions m, out_annotations = vertex_annotations m,
      out_lengths = vertex_lengths m, out_indices = triangle_indices m\<rparr> =
       append_buffers (append_buffers pre (spine_drawn ops cfg s j)) post \<and>
     length (out_positions pre) = spine_base (spines_closed s) (spines_read s) j \<and>
     length (out_annotations pre) = spine_base (spines_closed s) (spines_read s) j \<and>
     length (out_indices pre) = spine_index_base cfg (spines_closed s) (spines_read s) j"
proof -
  note r = draw_lines_Inr [OF m]
  from r(11) obtain arrs src' where
    lp: "spines_loop ops cfg (spines_closed s) arrs (unat (num_spines s)) (spine_lengths s) (vertices s) 0 no_buffers =
         Inr (src', \<lparr>out_positions = vertex_positions m,
                     out_annotations = vertex_annotations m,
                     out_lengths = vertex_lengths m, out_indices = triangle_indices m\<rparr>)"
    by blast
  have all: "list_all (\<lambda>n. 1 < unat n) (take (unat (num_spines s)) (spine_lengths s))"
    using r(1) by (simp add: spines_read_def)
  have eq: "spine_base (spines_closed s) (spine_lengths s) j =
              spine_base (spines_closed s) (spines_read s) j"
    "spine_index_base cfg (spines_closed s) (spine_lengths s) j =
       spine_index_base cfg (spines_closed s) (spines_read s) j"
    "spine_start (spine_lengths s) j = spine_start (spines_read s) j"
    by (simp_all add: spine_base_def spine_index_base_def spine_start_def
          spines_read_nth(2) [OF j])
  from spines_loop_block [OF lp all j] show ?thesis
    by (simp add: spine_drawn_def no_buffers_simps eq spines_read_nth(1) [OF j])
qed

lemma draw_lines_nth:
  assumes m: "mesh_sizing (spines_closed s) (unat (num_spines s)) (spine_lengths s) (0, 0) =
                 Inr (num_vertices m, num_triangles m)"
             "draw_spines ops cfg arrs s (num_vertices m) (num_triangles m) = Inr m" and j: "j < unat (num_spines s)"
  shows "i < spine_vertex_count (spines_closed s) (spines_read s ! j) \<Longrightarrow>
           vertex_positions m ! (spine_base (spines_closed s) (spines_read s) j + i) =
             out_positions (spine_drawn ops cfg s j) ! i"
    and "i < spine_vertex_count (spines_closed s) (spines_read s ! j) \<Longrightarrow>
           vertex_annotations m ! (spine_base (spines_closed s) (spines_read s) j + i) =
             out_annotations (spine_drawn ops cfg s j) ! i"
    and "i < indices_per_triangle cfg *
               spine_triangle_count (spines_closed s) (spines_read s ! j) \<Longrightarrow>
           triangle_indices m ! (spine_index_base cfg (spines_closed s) (spines_read s) j + i) =
             out_indices (spine_drawn ops cfg s j) ! i"
proof -
  from draw_lines_block [OF m j] obtain pre post where
    eq: "\<lparr>out_positions = vertex_positions m, out_annotations = vertex_annotations m,
      out_lengths = vertex_lengths m, out_indices = triangle_indices m\<rparr> =
       append_buffers (append_buffers pre (spine_drawn ops cfg s j)) post" and
    lp: "length (out_positions pre) = spine_base (spines_closed s) (spines_read s) j" and
    la: "length (out_annotations pre) = spine_base (spines_closed s) (spines_read s) j" and
    li: "length (out_indices pre) = spine_index_base cfg (spines_closed s) (spines_read s) j"
    by blast
  from eq have
    p: "vertex_positions m = out_positions pre @ out_positions (spine_drawn ops cfg s j) @
          out_positions post" and
    a: "vertex_annotations m = out_annotations pre @ out_annotations (spine_drawn ops cfg s j) @
          out_annotations post" and
    x: "triangle_indices m = out_indices pre @ out_indices (spine_drawn ops cfg s j) @
          out_indices post"
    by (simp_all add: append_buffers_def)
  note len = length_draw_spine [OF draw_lines_long_spine [OF m j], of ops cfg "spines_closed s"
      "word_of_nat (spine_base (spines_closed s) (spines_read s) j)"
      "drop (spine_start (spines_read s) j) (vertices s)", folded spine_drawn_def]
  show "vertex_positions m ! (spine_base (spines_closed s) (spines_read s) j + i) =
             out_positions (spine_drawn ops cfg s j) ! i"
    if "i < spine_vertex_count (spines_closed s) (spines_read s ! j)"
    using that by (simp add: p nth_append lp len)
  show "vertex_annotations m ! (spine_base (spines_closed s) (spines_read s) j + i) =
             out_annotations (spine_drawn ops cfg s j) ! i"
    if "i < spine_vertex_count (spines_closed s) (spines_read s ! j)"
    using that by (simp add: a nth_append la len)
  show "triangle_indices m ! (spine_index_base cfg (spines_closed s) (spines_read s) j + i) =
             out_indices (spine_drawn ops cfg s j) ! i"
    if "i < indices_per_triangle cfg *
               spine_triangle_count (spines_closed s) (spines_read s ! j)"
    using that by (simp add: x nth_append li len)
qed

lemma interior_loop_prefix:
  "\<exists>ps as xs. dst_positions (interior_loop ops t wire b n src w) = dst_positions w @ ps \<and>
     dst_annotations (interior_loop ops t wire b n src w) = dst_annotations w @ as \<and>
     dst_indices (interior_loop ops t wire b n src w) = dst_indices w @ xs"
proof (induction ops t wire b n src w rule: interior_loop.induct)
  case (1 ops t wire b n src w)
  show ?case
  proof (cases "Suc (segment_index w) < n")
    case True
    from "1.IH" [OF True] show ?thesis
      by (auto simp: interior_loop_step [OF True] interior_step_simps)
  next
    case False
    then show ?thesis by (simp add: interior_loop_done)
  qed
qed

lemma interior_loop_pn:
  "segment_index w < n \<Longrightarrow>
   pn w = segment_normal ops (src ! (segment_index w - 1)) (src ! segment_index w) \<Longrightarrow>
   pn (interior_loop ops t wire b n src w) = segment_normal ops (src ! (n - 2)) (src ! (n - 1))"
proof (induction ops t wire b n src w rule: interior_loop.induct)
  case (1 ops t wire b n src w)
  show ?case
  proof (cases "Suc (segment_index w) < n")
    case True
    from "1.IH" [OF True] True show ?thesis
      by (simp add: interior_loop_step [OF True] interior_step_simps)
  next
    case False
    with "1.prems"(1) have "segment_index w = n - 1" by simp
    moreover have "n - 1 - 1 = n - 2" by simp
    ultimately show ?thesis using False "1.prems"(2) by (simp add: interior_loop_done)
  qed
qed

lemma interior_walk_positions:
  assumes "1 < unat sl"
  shows "length (dst_positions (interior_walk ops cfg cl b sl src)) = 2 * unat sl - 2"
    and "length (dst_annotations (interior_walk ops cfg cl b sl src)) = 2 * unat sl - 2"
    and "take 2 (dst_positions (interior_walk ops cfg cl b sl src)) =
           pair_positions ops (src ! 0) (first_offset ops (thickness cfg) cl (unat sl) src)"
    and "take 2 (dst_annotations (interior_walk ops cfg cl b sl src)) =
           pair_annotations ops (f_of_int ops 0) (first_offset ops (thickness cfg) cl (unat sl) src)"
    and "pn (interior_walk ops cfg cl b sl src) =
           segment_normal ops (src ! (unat sl - 2)) (src ! (unat sl - 1))"
proof -
  let ?w0 = "first_vertex ops (thickness cfg) cl (unat sl) src"
  have s: "segment_index ?w0 < unat sl" using assms by (simp add: first_vertex_simps)
  from interior_loop_length [OF s, of ops "thickness cfg" "wireframe cfg" b src] assms
  show "length (dst_positions (interior_walk ops cfg cl b sl src)) = 2 * unat sl - 2"
    and "length (dst_annotations (interior_walk ops cfg cl b sl src)) = 2 * unat sl - 2"
    by (auto simp: interior_walk_def first_vertex_simps length_pair_positions
          length_pair_annotations)
  from interior_loop_prefix [of ops "thickness cfg" "wireframe cfg" b "unat sl" src ?w0]
  show "take 2 (dst_positions (interior_walk ops cfg cl b sl src)) =
           pair_positions ops (src ! 0) (first_offset ops (thickness cfg) cl (unat sl) src)"
    and "take 2 (dst_annotations (interior_walk ops cfg cl b sl src)) =
           pair_annotations ops (f_of_int ops 0) (first_offset ops (thickness cfg) cl (unat sl) src)"
    by (auto simp: interior_walk_def first_vertex_simps length_pair_positions
          length_pair_annotations)
  from interior_loop_pn [OF s, of ops src "thickness cfg" "wireframe cfg" b]
  show "pn (interior_walk ops cfg cl b sl src) =
           segment_normal ops (src ! (unat sl - 2)) (src ! (unat sl - 1))"
    by (simp add: interior_walk_def first_vertex_simps)
qed

lemma take_2_nth: "take 2 xs = ys \<Longrightarrow> length ys = 2 \<Longrightarrow> xs ! 0 = ys ! 0 \<and> xs ! 1 = ys ! 1"
  by (metis One_nat_def lessI nth_take one_less_numeral_iff pos2 semiring_norm(76))

lemma draw_spine_seam:
  assumes "1 < unat sl"
  shows "out_positions (draw_spine ops cfg True b sl src) ! (2 * unat sl) =
           out_positions (draw_spine ops cfg True b sl src) ! 0"
    and "out_positions (draw_spine ops cfg True b sl src) ! (2 * unat sl + 1) =
           out_positions (draw_spine ops cfg True b sl src) ! 1"
proof -
  let ?W = "interior_walk ops cfg True b sl src"
  let ?F = "pair_positions ops (src ! 0) (first_offset ops (thickness cfg) True (unat sl) src)"
  note w = interior_walk_positions [OF assms, of ops cfg True b src]
  from take_2_nth [OF w(3)] have f: "dst_positions ?W ! 0 = ?F ! 0" "dst_positions ?W ! 1 = ?F ! 1"
    by (simp_all add: length_pair_positions)
  have l: "2 * unat sl - 2 + 2 = 2 * unat sl" using assms by simp
  show "out_positions (draw_spine ops cfg True b sl src) ! (2 * unat sl) =
           out_positions (draw_spine ops cfg True b sl src) ! 0"
    using assms f
    by (simp add: draw_spine_closed [OF assms] nth_append w(1) length_pair_positions)
  show "out_positions (draw_spine ops cfg True b sl src) ! (2 * unat sl + 1) =
           out_positions (draw_spine ops cfg True b sl src) ! 1"
    using assms f
    by (simp add: draw_spine_closed [OF assms] nth_append w(1) length_pair_positions)
qed

lemma spine_start_le:
  "j < length ls \<Longrightarrow> spine_start ls j + unat (ls ! j) \<le> sum_list (map unat ls)"
proof -
  assume "j < length ls"
  then have "ls = take j ls @ ls ! j # drop (Suc j) ls" by (rule id_take_nth_drop)
  then have "sum_list (map unat ls) =
      sum_list (map unat (take j ls)) + unat (ls ! j) + sum_list (map unat (drop (Suc j) ls))"
    by (metis add.assoc list.simps(9) map_append sum_list.Cons sum_list.append)
  then show ?thesis by (simp add: spine_start_def)
qed

lemma draw_lines_src:
  assumes m: "mesh_sizing (spines_closed s) (unat (num_spines s)) (spine_lengths s) (0, 0) =
                 Inr (num_vertices m, num_triangles m)"
             "draw_spines ops cfg arrs s (num_vertices m) (num_triangles m) = Inr m" and j: "j < unat (num_spines s)"
    and i: "i < unat (spines_read s ! j)"
  shows "drop (spine_start (spines_read s) j) (vertices s) ! i =
           vertices s ! (spine_start (spines_read s) j + i)"
    and "spine_start (spines_read s) j + i < length (vertices s)"
proof -
  from draw_lines_Inr(3) [OF m] j have "j < length (spines_read s)"
    by (simp add: spines_read_def)
  from spine_start_le [OF this] draw_lines_Inr(4) [OF m] i
  show "spine_start (spines_read s) j + i < length (vertices s)" by simp
  then show "drop (spine_start (spines_read s) j) (vertices s) ! i =
           vertices s ! (spine_start (spines_read s) j + i)"
    by simp
qed

lemma draw_lines_spine_fits:
  assumes m: "mesh_sizing (spines_closed s) (unat (num_spines s)) (spine_lengths s) (0, 0) =
                 Inr (num_vertices m, num_triangles m)"
             "draw_spines ops cfg arrs s (num_vertices m) (num_triangles m) = Inr m" and j: "j < unat (num_spines s)"
  shows "spine_base (spines_closed s) (spines_read s) j +
           spine_vertex_count (spines_closed s) (spines_read s ! j) \<le> length (vertex_positions m)"
proof -
  from draw_lines_block [OF m j] obtain pre post where
    eq: "\<lparr>out_positions = vertex_positions m, out_annotations = vertex_annotations m,
      out_lengths = vertex_lengths m, out_indices = triangle_indices m\<rparr> =
       append_buffers (append_buffers pre (spine_drawn ops cfg s j)) post" and
    lp: "length (out_positions pre) = spine_base (spines_closed s) (spines_read s) j"
    by blast
  from eq have
    p: "vertex_positions m = out_positions pre @ out_positions (spine_drawn ops cfg s j) @
          out_positions post"
    by (simp add: append_buffers_def)
  note len = length_draw_spine(1) [OF draw_lines_long_spine [OF m j], of ops cfg "spines_closed s"
      "word_of_nat (spine_base (spines_closed s) (spines_read s) j)"
      "drop (spine_start (spines_read s) j) (vertices s)", folded spine_drawn_def]
  show ?thesis by (simp add: p lp len)
qed

section \<open>C7: the seam of a closed spine\<close>

text \<open>
  Claim C7. For every closed spine, the duplicated pair of boundary vertices emitted after
  the pair of the last spine vertex is equal in position to the first pair of boundary
  vertices of that spine. Spine \<open>j\<close> of \<open>n\<close> vertices occupies the mesh vertices
  \<open>spine_base j\<close> to \<open>spine_base j + 2n + 1\<close>; the duplicated pair is the last two of them.
\<close>

theorem closed_spine_seam:
  assumes "par_streamlines_draw_lines ops realloc heap c s = Inr (c', heap')"
    and "spines_closed s" and "j < unat (num_spines s)"
  shows "vertex_positions (result c') !
           (spine_base True (spines_read s) j + 2 * unat (spines_read s ! j)) =
           vertex_positions (result c') ! (spine_base True (spines_read s) j) \<and>
         vertex_positions (result c') !
           (spine_base True (spines_read s) j + 2 * unat (spines_read s ! j) + 1) =
           vertex_positions (result c') ! (spine_base True (spines_read s) j + 1) \<and>
         spine_base True (spines_read s) j + 2 * unat (spines_read s ! j) + 1 <
           length (vertex_positions (result c'))"
proof -
  have "vertex_positions m ! (spine_base True (spines_read s) j + 2 * unat (spines_read s ! j)) =
          vertex_positions m ! (spine_base True (spines_read s) j) \<and>
        vertex_positions m ! (spine_base True (spines_read s) j + 2 * unat (spines_read s ! j) + 1) =
          vertex_positions m ! (spine_base True (spines_read s) j + 1) \<and>
        spine_base True (spines_read s) j + 2 * unat (spines_read s ! j) + 1 <
          length (vertex_positions m)"
    if m: "mesh_sizing (spines_closed s) (unat (num_spines s)) (spine_lengths s) (0, 0) =
              Inr (num_vertices m, num_triangles m)"
          "draw_spines ops cfg arrs s (num_vertices m) (num_triangles m) = Inr m" for m cfg arrs
  proof -
    let ?n = "unat (spines_read s ! j)" and ?b = "spine_base True (spines_read s) j"
    note sl = draw_lines_long_spine [OF m assms(3)]
    have c: "spine_vertex_count (spines_closed s) (spines_read s ! j) = 2 * ?n + 2"
      using assms(2) by (simp add: spine_vertex_count_def)
    note nth = draw_lines_nth(1) [OF m assms(3), unfolded c, simplified assms(2)]
    note seam = draw_spine_seam [OF sl, of ops cfg
        "word_of_nat (spine_base True (spines_read s) j)"
        "drop (spine_start (spines_read s) j) (vertices s)"]
    have sd: "spine_drawn ops cfg s j =
        draw_spine ops cfg True (word_of_nat (spine_base True (spines_read s) j))
          (spines_read s ! j) (drop (spine_start (spines_read s) j) (vertices s))"
      using assms(2) by (simp add: spine_drawn_def)
    have "vertex_positions m ! (?b + 2 * ?n) = vertex_positions m ! (?b + 0)"
      using nth [of "2 * ?n"] nth [of 0] seam(1) by (simp add: sd)
    moreover have "vertex_positions m ! (?b + (2 * ?n + 1)) = vertex_positions m ! (?b + 1)"
      using nth [of "2 * ?n + 1"] nth [of 1] seam(2) by (simp add: sd)
    moreover have "?b + 2 * ?n + 1 < length (vertex_positions m)"
      using draw_lines_spine_fits [OF m assms(3)] assms(2) by (simp add: spine_vertex_count_def)
    ultimately show ?thesis by (simp add: add.assoc)
  qed
  from this [OF draw_lines_mesh(1,2) [OF assms(1)]] show ?thesis .
qed

text \<open>The header's example, closed: 8 mesh vertices, the last two equal to the first
  two.\<close>

theorem closed_spine_seam_witness:
  "\<exists>ctx m. par_streamlines_draw_lines real_ops granting () (fresh_context example_config) closed_example_spines =
         Inr (ctx, ()) \<and> result ctx = m \<and>
       length (vertex_positions m) = 8 \<and>
       vertex_positions m ! 6 = vertex_positions m ! 0 \<and>
       vertex_positions m ! 7 = vertex_positions m ! 1"
proof -
  have ok: "spine_list_valid closed_example_spines" "arrays_as_declared closed_example_spines"
    "total_vertices (spines_closed closed_example_spines) (spines_read closed_example_spines)
       < 134217728"
    by (simp_all add: spine_list_valid_def arrays_as_declared_def spines_read_def
        closed_example_spines_def example_spines_def total_vertices_def spine_vertex_count_def)
  from draw_lines_fresh [OF ok, of real_ops example_config] obtain ctx where
    call: "par_streamlines_draw_lines real_ops granting () (fresh_context example_config) closed_example_spines =
             Inr (ctx, ())"
    by blast
  define m where "m = result ctx"
  note m = draw_lines_mesh(1,2) [OF call, unfolded fresh_context_simps, folded m_def]
  have c: "spines_closed closed_example_spines" and j: "0 < unat (num_spines closed_example_spines)"
    by (simp_all add: closed_example_spines_def example_spines_def)
  from draw_lines_Inr(7) [OF m] have l: "length (vertex_positions m) = 8"
    by (simp add: spines_read_def closed_example_spines_def example_spines_def
          total_vertices_def spine_vertex_count_def)
  from closed_spine_seam [OF call c j, folded m_def] have
    "vertex_positions m ! 6 = vertex_positions m ! 0 \<and>
     vertex_positions m ! 7 = vertex_positions m ! 1"
    by (simp add: spine_base_def total_vertices_def spines_read_def closed_example_spines_def
          example_spines_def)
  with call m_def l show ?thesis by blast
qed

lemma list2_nth: "length ys = 2 \<Longrightarrow> [ys ! 0, ys ! 1] = ys"
  by (cases ys; cases "tl ys") auto

lemma draw_spine_caps:
  assumes "1 < unat sl"
  shows "[out_positions (draw_spine ops cfg False b sl src) ! 0,
          out_positions (draw_spine ops cfg False b sl src) ! 1] =
           pair_positions ops (src ! 0)
             (cap_offset ops (thickness cfg) (segment_normal ops (src ! 0) (src ! 1)))"
    and "[out_positions (draw_spine ops cfg False b sl src) ! (2 * unat sl - 2),
          out_positions (draw_spine ops cfg False b sl src) ! (2 * unat sl - 1)] =
           pair_positions ops (src ! (unat sl - 1))
             (cap_offset ops (thickness cfg)
                (segment_normal ops (src ! (unat sl - 2)) (src ! (unat sl - 1))))"
proof -
  let ?W = "interior_walk ops cfg False b sl src"
  let ?F = "pair_positions ops (src ! 0) (first_offset ops (thickness cfg) False (unat sl) src)"
  note w = interior_walk_positions [OF assms, of ops cfg False b src]
  from take_2_nth [OF w(3)] have f: "dst_positions ?W ! 0 = ?F ! 0" "dst_positions ?W ! 1 = ?F ! 1"
    by (simp_all add: length_pair_positions)
  have l: "2 * unat sl - 1 = Suc (2 * unat sl - 2)" using assms by simp
  have l2: "Suc 0 < 2 * unat sl - 2" using assms by simp
  show "[out_positions (draw_spine ops cfg False b sl src) ! 0,
          out_positions (draw_spine ops cfg False b sl src) ! 1] =
           pair_positions ops (src ! 0)
             (cap_offset ops (thickness cfg) (segment_normal ops (src ! 0) (src ! 1)))"
    using assms f list2_nth [of ?F] l2
    by (simp add: draw_spine_open [OF assms] nth_append w(1) length_pair_positions
          first_offset_def)
  let ?L = "pair_positions ops (src ! (unat sl - 1))
             (cap_offset ops (thickness cfg)
                (segment_normal ops (src ! (unat sl - 2)) (src ! (unat sl - 1))))"
  have out: "out_positions (draw_spine ops cfg False b sl src) = dst_positions ?W @ ?L"
    by (simp add: draw_spine_open [OF assms] w(5))
  have "(dst_positions ?W @ ?L) ! length (dst_positions ?W) = ?L ! 0"
    by (simp add: nth_append)
  then have a: "out_positions (draw_spine ops cfg False b sl src) ! (2 * unat sl - 2) = ?L ! 0"
    by (simp only: out w(1))
  have "(dst_positions ?W @ ?L) ! (length (dst_positions ?W) + 1) = ?L ! 1"
    by (simp only: nth_append_length_plus)
  then have "out_positions (draw_spine ops cfg False b sl src) ! (2 * unat sl - 2 + 1) = ?L ! 1"
    by (simp only: out w(1))
  moreover have "2 * unat sl - 2 + 1 = 2 * unat sl - 1" using assms by simp
  ultimately have b: "out_positions (draw_spine ops cfg False b sl src) ! (2 * unat sl - 1) =
      ?L ! 1"
    by simp
  show "[out_positions (draw_spine ops cfg False b sl src) ! (2 * unat sl - 2),
          out_positions (draw_spine ops cfg False b sl src) ! (2 * unat sl - 1)] = ?L"
    unfolding a b by (rule list2_nth) (simp add: length_pair_positions)
qed

section \<open>C8: the ends of an open spine\<close>

text \<open>
  Claim C8. For every open spine, the pair of boundary vertices at the first spine vertex
  is that vertex plus and minus the normal of the first segment times \<open>thickness\<close> over 2,
  and the pair at the last spine vertex is that vertex plus and minus the normal of the
  last segment times \<open>thickness\<close> over 2, computed as at lines 240--247 and 360--361 (a
  butt cap: no miter is computed at the ends). Spine \<open>j\<close> of \<open>n\<close> vertices reads the
  input vertices from \<open>spine_start j\<close> on and occupies the mesh vertices \<open>spine_base j\<close> to
  \<open>spine_base j + 2n - 1\<close>.
\<close>

theorem open_spine_caps:
  assumes "par_streamlines_draw_lines ops realloc heap c s = Inr (c', heap')"
    and "\<not> spines_closed s" and "j < unat (num_spines s)"
  shows "let n = unat (spines_read s ! j);
             a = spine_start (spines_read s) j;
             b = spine_base False (spines_read s) j;
             m = result c'
         in [vertex_positions m ! b, vertex_positions m ! (b + 1)] =
              pair_positions ops (vertices s ! a)
                (cap_offset ops (thickness (config c))
                   (segment_normal ops (vertices s ! a) (vertices s ! (a + 1)))) \<and>
            [vertex_positions m ! (b + 2 * n - 2), vertex_positions m ! (b + 2 * n - 1)] =
              pair_positions ops (vertices s ! (a + n - 1))
                (cap_offset ops (thickness (config c))
                   (segment_normal ops (vertices s ! (a + n - 2)) (vertices s ! (a + n - 1)))) \<and>
            b + 2 * n \<le> length (vertex_positions m) \<and> a + n \<le> length (vertices s)"
proof -
  have "let n = unat (spines_read s ! j);
            a = spine_start (spines_read s) j;
            b = spine_base False (spines_read s) j
        in [vertex_positions m ! b, vertex_positions m ! (b + 1)] =
             pair_positions ops (vertices s ! a)
               (cap_offset ops (thickness cfg)
                  (segment_normal ops (vertices s ! a) (vertices s ! (a + 1)))) \<and>
           [vertex_positions m ! (b + 2 * n - 2), vertex_positions m ! (b + 2 * n - 1)] =
             pair_positions ops (vertices s ! (a + n - 1))
               (cap_offset ops (thickness cfg)
                  (segment_normal ops (vertices s ! (a + n - 2)) (vertices s ! (a + n - 1)))) \<and>
           b + 2 * n \<le> length (vertex_positions m) \<and> a + n \<le> length (vertices s)"
    if m: "mesh_sizing (spines_closed s) (unat (num_spines s)) (spine_lengths s) (0, 0) =
              Inr (num_vertices m, num_triangles m)"
          "draw_spines ops cfg arrs s (num_vertices m) (num_triangles m) = Inr m" for m cfg arrs
  proof -
    let ?n = "unat (spines_read s ! j)" and ?a = "spine_start (spines_read s) j"
    let ?b = "spine_base False (spines_read s) j"
    let ?src = "drop ?a (vertices s)"
    note sl = draw_lines_long_spine [OF m assms(3)]
    have c: "spine_vertex_count (spines_closed s) (spines_read s ! j) = 2 * ?n"
      using assms(2) by (simp add: spine_vertex_count_def)
    note nth = draw_lines_nth(1) [OF m assms(3), unfolded c, simplified assms(2)]
    have sd: "spine_drawn ops cfg s j =
        draw_spine ops cfg False (word_of_nat ?b) (spines_read s ! j) ?src"
      using assms(2) by (simp add: spine_drawn_def)
    note caps = draw_spine_caps [OF sl, of ops cfg "word_of_nat ?b" ?src]
    note src = draw_lines_src [OF m assms(3)]
    have s0: "?src ! 0 = vertices s ! ?a" using src(1) [of 0] sl by simp
    have s1: "?src ! 1 = vertices s ! (?a + 1)" using src(1) [of 1] sl by simp
    have s2: "?src ! (?n - 1) = vertices s ! (?a + ?n - 1)" using src(1) [of "?n - 1"] sl by simp
    have s3: "?src ! (?n - 2) = vertices s ! (?a + ?n - 2)" using src(1) [of "?n - 2"] sl by simp
    have p0: "vertex_positions m ! ?b = out_positions (spine_drawn ops cfg s j) ! 0"
      using nth [of 0] sl by simp
    have p1: "vertex_positions m ! (?b + 1) = out_positions (spine_drawn ops cfg s j) ! 1"
      using nth [of 1] sl by simp
    have p2: "vertex_positions m ! (?b + 2 * ?n - 2) =
                out_positions (spine_drawn ops cfg s j) ! (2 * ?n - 2)"
      using nth [of "2 * ?n - 2"] sl by simp
    have p3: "vertex_positions m ! (?b + 2 * ?n - 1) =
                out_positions (spine_drawn ops cfg s j) ! (2 * ?n - 1)"
      using nth [of "2 * ?n - 1"] sl by simp
    have f: "?b + 2 * ?n \<le> length (vertex_positions m)"
      using draw_lines_spine_fits [OF m assms(3)] assms(2) by (simp add: spine_vertex_count_def)
    have g: "?a + ?n \<le> length (vertices s)"
      using src(2) [of "?n - 1"] sl by arith
    show ?thesis
      unfolding Let_def p0 p1 p2 p3 sd
      using caps f g by (simp only: s0 s1 s2 s3 simp_thms)
  qed
  from this [OF draw_lines_mesh(1,2) [OF assms(1)]] show ?thesis
    by (simp only: Let_def)
qed

text \<open>The header's example (thickness 3): the first segment runs from (0, 0) to (2, 1)
  and the last from (2, 1) to (4, 0); both have length \<open>sqrt 5\<close>.\<close>

theorem open_spine_caps_witness:
  "\<exists>ctx m. par_streamlines_draw_lines real_ops granting () (fresh_context example_config) example_spines =
         Inr (ctx, ()) \<and> result ctx = m \<and>
     vertex_positions m ! 0 = \<lparr>pos_x = - (3 / (2 * sqrt 5)), pos_y = 3 / sqrt 5\<rparr> \<and>
     vertex_positions m ! 1 = \<lparr>pos_x = 3 / (2 * sqrt 5), pos_y = - (3 / sqrt 5)\<rparr> \<and>
     vertex_positions m ! 4 = \<lparr>pos_x = 4 + 3 / (2 * sqrt 5), pos_y = 3 / sqrt 5\<rparr> \<and>
     vertex_positions m ! 5 = \<lparr>pos_x = 4 - 3 / (2 * sqrt 5), pos_y = - (3 / sqrt 5)\<rparr>"
proof -
  from draw_lines_fresh [OF example_spines_ok, of real_ops example_config] obtain ctx where
    call: "par_streamlines_draw_lines real_ops granting () (fresh_context example_config) example_spines =
             Inr (ctx, ())"
    by blast
  define m where "m = result ctx"
  note m = draw_lines_mesh(1,2) [OF call, unfolded fresh_context_simps, folded m_def]
  have c: "\<not> spines_closed example_spines" and j: "0 < unat (num_spines example_spines)"
    by (simp_all add: example_spines_def)
  have v: "spines_read example_spines = [3]"
    "vertices example_spines =
       [\<lparr>pos_x = 0, pos_y = 0\<rparr>, \<lparr>pos_x = 2, pos_y = 1\<rparr>, \<lparr>pos_x = 4, pos_y = 0\<rparr>]"
    "thickness example_config = 3"
    by (simp_all add: spines_read_def example_spines_def example_config_def)
  have n1: "segment_normal real_ops \<lparr>pos_x = 0, pos_y = 0\<rparr> \<lparr>pos_x = 2, pos_y = 1\<rparr> =
      (- (1 / sqrt 5), 2 / sqrt 5)"
    by (simp add: segment_normal_def segment_length_def real_ops_def)
  have n2: "segment_normal real_ops \<lparr>pos_x = 2, pos_y = 1\<rparr> \<lparr>pos_x = 4, pos_y = 0\<rparr> =
      (1 / sqrt 5, 2 / sqrt 5)"
    by (simp add: segment_normal_def segment_length_def real_ops_def)
  from open_spine_caps [OF call c j, folded m_def, unfolded fresh_context_simps] have
    "vertex_positions m ! 0 = \<lparr>pos_x = - (3 / (2 * sqrt 5)), pos_y = 3 / sqrt 5\<rparr> \<and>
     vertex_positions m ! 1 = \<lparr>pos_x = 3 / (2 * sqrt 5), pos_y = - (3 / sqrt 5)\<rparr> \<and>
     vertex_positions m ! 4 = \<lparr>pos_x = 4 + 3 / (2 * sqrt 5), pos_y = 3 / sqrt 5\<rparr> \<and>
     vertex_positions m ! 5 = \<lparr>pos_x = 4 - 3 / (2 * sqrt 5), pos_y = - (3 / sqrt 5)\<rparr>"
    by (simp add: v spine_start_def spine_base_def total_vertices_def n1 n2
          pair_positions_def cap_offset_def)
       (simp add: real_ops_def)
  with call m_def show ?thesis by blast
qed

lemma draw_lines_single:
  assumes m: "mesh_sizing (spines_closed s) (unat (num_spines s)) (spine_lengths s) (0, 0) =
                 Inr (num_vertices m, num_triangles m)"
             "draw_spines ops cfg arrs s (num_vertices m) (num_triangles m) = Inr m" and one: "num_spines s = 1"
  shows "vertex_positions m = out_positions (spine_drawn ops cfg s 0)"
    and "vertex_annotations m = out_annotations (spine_drawn ops cfg s 0)"
    and "vertex_lengths m = out_lengths (spine_drawn ops cfg s 0)"
    and "triangle_indices m = out_indices (spine_drawn ops cfg s 0)"
proof -
  note r = draw_lines_Inr [OF m]
  from r(3) one obtain sl ls where ls: "spine_lengths s = sl # ls"
    by (cases "spine_lengths s") simp_all
  from r(11) obtain arrs src' where
    lp: "spines_loop ops cfg (spines_closed s) arrs (Suc 0) (sl # ls) (vertices s) 0 no_buffers =
         Inr (src', \<lparr>out_positions = vertex_positions m,
                     out_annotations = vertex_annotations m,
                     out_lengths = vertex_lengths m, out_indices = triangle_indices m\<rparr>)"
    by (auto simp: one ls)
  have sd: "spine_drawn ops cfg s 0 = draw_spine ops cfg (spines_closed s) 0 sl (vertices s)"
    by (simp add: spine_drawn_def spine_Cons spines_read_def one ls)
  from lp have "\<lparr>out_positions = vertex_positions m, out_annotations = vertex_annotations m,
      out_lengths = vertex_lengths m, out_indices = triangle_indices m\<rparr> =
      append_buffers no_buffers (draw_spine ops cfg (spines_closed s) 0 sl (vertices s))"
    by (simp split: if_splits)
  then show "vertex_positions m = out_positions (spine_drawn ops cfg s 0)"
    and "vertex_annotations m = out_annotations (spine_drawn ops cfg s 0)"
    and "vertex_lengths m = out_lengths (spine_drawn ops cfg s 0)"
    and "triangle_indices m = out_indices (spine_drawn ops cfg s 0)"
    by (simp_all add: sd append_buffers_def no_buffers_def)
qed

lemma interior_walk_3:
  "unat sl = 3 \<Longrightarrow>
   interior_walk ops cfg cl b sl src =
     interior_step ops (thickness cfg) (wireframe cfg) b src
       (first_vertex ops (thickness cfg) cl 3 src)"
  by (simp add: interior_walk_def interior_loop_step interior_loop_done first_vertex_simps
        interior_step_simps)

lemma sqrt_squares: "sqrt 9 = 3" "sqrt 16 = 4" "sqrt 25 = 5"
  using real_sqrt_abs [of 3] real_sqrt_abs [of 4] real_sqrt_abs [of 5] by simp_all

lemma right_triangle_sides:
  "segment_length real_ops \<lparr>pos_x = 0, pos_y = 0\<rparr> \<lparr>pos_x = 3, pos_y = 0\<rparr> = 3"
  "segment_length real_ops \<lparr>pos_x = 3, pos_y = 0\<rparr> \<lparr>pos_x = 3, pos_y = 4\<rparr> = 4"
  "segment_length real_ops \<lparr>pos_x = 3, pos_y = 4\<rparr> \<lparr>pos_x = 0, pos_y = 0\<rparr> = 5"
  by (simp_all add: segment_length_def real_ops_def sqrt_squares)

lemma right_triangle_ok:
  "spine_list_valid right_triangle" "arrays_as_declared right_triangle"
  "total_vertices (spines_closed right_triangle) (spines_read right_triangle) < 134217728"
  by (simp_all add: spine_list_valid_def arrays_as_declared_def spines_read_def
        right_triangle_def total_vertices_def spine_vertex_count_def)

lemma right_triangle_drawn:
  "spine_drawn ops cfg right_triangle 0 =
     draw_spine ops cfg True 0 3
       [\<lparr>pos_x = 0, pos_y = 0\<rparr>, \<lparr>pos_x = 3, pos_y = 0\<rparr>, \<lparr>pos_x = 3, pos_y = 4\<rparr>]"
  by (simp add: spine_drawn_def spine_Cons spines_read_def right_triangle_def)

lemma right_triangle_distance:
  "distance_along_spine (interior_walk real_ops cfg True 0 3
       [\<lparr>pos_x = 0, pos_y = 0\<rparr>, \<lparr>pos_x = 3, pos_y = 0\<rparr>, \<lparr>pos_x = 3, pos_y = 4\<rparr>]) = 7"
  by (simp add: interior_walk_3 interior_step_simps first_vertex_simps right_triangle_sides)
     (simp add: real_ops_def)

section \<open>C3: the path length of a spine\<close>

text \<open>
  Claim C3 says that \<open>vertex_lengths\<close> holds, for every emitted vertex of a spine, the
  total arc length of the spine, the closing segment included when the spine is closed. On
  the closed right triangle with sides 3, 4 and 5 the code writes 10 = 3 + 4 + 3 for all
  8 vertices, not 12 = 3 + 4 + 5: line 440 adds the length of the first segment (the
  variable of line 239) where the length of the closing segment is meant.
\<close>

theorem closed_spine_length_evaluated:
  "\<exists>ctx m. par_streamlines_draw_lines real_ops granting () (fresh_context example_config) right_triangle =
         Inr (ctx, ()) \<and> result ctx = m \<and>
       vertex_lengths m = [10, 10, 10, 10, 10, 10, 10, 10] \<and>
       segment_length real_ops (vertices right_triangle ! 0) (vertices right_triangle ! 1) = 3 \<and>
       segment_length real_ops (vertices right_triangle ! 1) (vertices right_triangle ! 2) = 4 \<and>
       segment_length real_ops (vertices right_triangle ! 2) (vertices right_triangle ! 0) = 5"
proof -
  from draw_lines_fresh [OF right_triangle_ok, of real_ops example_config] obtain ctx where
    call: "par_streamlines_draw_lines real_ops granting () (fresh_context example_config) right_triangle =
             Inr (ctx, ())"
    by blast
  define m where "m = result ctx"
  note m = draw_lines_mesh(1,2) [OF call, unfolded fresh_context_simps, folded m_def]
  have one: "num_spines right_triangle = 1" by (simp add: right_triangle_def)
  have "vertex_lengths m = replicate 8 10"
    by (simp add: draw_lines_single(3) [OF m one] right_triangle_drawn draw_spine_closed
          right_triangle_distance right_triangle_sides)
       (simp add: real_ops_def)
  then have "vertex_lengths m = [10, 10, 10, 10, 10, 10, 10, 10]"
    by (simp add: numeral_eq_Suc)
  with call m_def show ?thesis by (auto simp: right_triangle_def right_triangle_sides)
qed

lemma real_ops_simps:
  "f_add real_ops = (+)" "f_sub real_ops = (-)" "f_mul real_ops = (*)" "f_div real_ops = (/)"
  "f_neg real_ops = uminus" "f_sqrt real_ops = sqrt" "f_of_int real_ops = of_int"
  "d_of_f real_ops = id" "f_of_d real_ops = id" "d_sub real_ops = (-)" "d_mul real_ops = (*)"
  "d_div real_ops = (/)" "d_acos real_ops = arccos" "d_sin real_ops = sin"
  "d_of_int real_ops = of_int" "d_half real_ops = 1 / 2" "d_pi real_ops = pi"
  by (simp_all add: real_ops_def)

lemma draw_lines_spine_us:
  assumes m: "mesh_sizing (spines_closed s) (unat (num_spines s)) (spine_lengths s) (0, 0) =
                 Inr (num_vertices m, num_triangles m)"
             "draw_spines ops cfg arrs s (num_vertices m) (num_triangles m) = Inr m" and j: "j < unat (num_spines s)"
  shows "spine_us m (spines_closed s) (spines_read s) j =
           map u_along_curve (out_annotations (spine_drawn ops cfg s j))"
proof -
  from draw_lines_block [OF m j] obtain pre post where
    eq: "\<lparr>out_positions = vertex_positions m, out_annotations = vertex_annotations m,
      out_lengths = vertex_lengths m, out_indices = triangle_indices m\<rparr> =
       append_buffers (append_buffers pre (spine_drawn ops cfg s j)) post" and
    la: "length (out_annotations pre) = spine_base (spines_closed s) (spines_read s) j"
    by blast
  from eq have
    a: "vertex_annotations m = out_annotations pre @ out_annotations (spine_drawn ops cfg s j) @
          out_annotations post"
    by (simp add: append_buffers_def)
  note len = length_draw_spine(2) [OF draw_lines_long_spine [OF m j], of ops cfg "spines_closed s"
      "word_of_nat (spine_base (spines_closed s) (spines_read s) j)"
      "drop (spine_start (spines_read s) j) (vertices s)", folded spine_drawn_def]
  show ?thesis by (simp add: spine_us_def a la len)
qed

lemma rewrite_u_map:
  "even (length as) \<Longrightarrow>
   map u_along_curve (rewrite_u (\<lambda>i. h) i as) = map (\<lambda>a. h (u_along_curve a)) as"
  by (induction "\<lambda>i :: nat. h" i as rule: rewrite_u.induct) simp_all

lemma fix_u_normalized:
  assumes "length as = nverts * 2"
  shows "map u_along_curve (fix_u ops PAR_U_MODE_NORMALIZED_DISTANCE d sl nverts as) =
           map (\<lambda>u. f_mul ops u (f_div ops (f_of_int ops 1) d)) (map u_along_curve as)"
proof -
  have "u_rule ops PAR_U_MODE_NORMALIZED_DISTANCE d sl =
          (\<lambda>i u. f_mul ops u (f_div ops (f_of_int ops 1) d))"
    by (simp add: u_rule_def fun_eq_iff)
  then show ?thesis using assms by (simp add: fix_u_def rewrite_u_map)
qed

lemma right_triangle_us:
  "map u_along_curve (dst_annotations (interior_walk real_ops cfg True 0 3
       [\<lparr>pos_x = 0, pos_y = 0\<rparr>, \<lparr>pos_x = 3, pos_y = 0\<rparr>, \<lparr>pos_x = 3, pos_y = 4\<rparr>])) =
     [0, 0, 3, 3]"
  by (simp add: interior_walk_3 interior_step_simps first_vertex_simps right_triangle_sides
        pair_annotations_def real_ops_simps)

section \<open>C4: the normalized distance along a spine\<close>

text \<open>
  Claim C4 says that in \<open>NORMALIZED_DISTANCE\<close> mode the largest \<open>u\<close> over a spine, open or
  closed, is 1 and the smallest 0. On the closed right triangle with sides 3, 4 and 5 the
  code writes the \<open>u\<close> coordinates 0, 0.3, 0.7 and, for the seam pair, 0.7 again: the
  smallest is 0 and the largest 0.7. The seam pair is stamped at lines 431--432 with the
  distance of the last vertex, 7, and only then line 440 adds a segment length to the
  total, 10, by which line 475 divides.
\<close>

theorem normalized_u_counterexample:
  "\<exists>ctx m. par_streamlines_draw_lines real_ops granting () (fresh_context example_config) right_triangle =
         Inr (ctx, ()) \<and> result ctx = m \<and>
       map u_along_curve (vertex_annotations m) =
         [0, 0, 3 / 10, 3 / 10, 7 / 10, 7 / 10, 7 / 10, 7 / 10] \<and>
       Max (set (spine_us m True (spines_read right_triangle) 0)) = 7 / 10 \<and>
       Min (set (spine_us m True (spines_read right_triangle) 0)) = 0"
proof -
  from draw_lines_fresh [OF right_triangle_ok, of real_ops example_config] obtain ctx where
    call: "par_streamlines_draw_lines real_ops granting () (fresh_context example_config) right_triangle =
             Inr (ctx, ())"
    by blast
  define m where "m = result ctx"
  note m = draw_lines_mesh(1,2) [OF call, unfolded fresh_context_simps, folded m_def]
  have one: "num_spines right_triangle = 1" and j: "0 < unat (num_spines right_triangle)"
    and c: "spines_closed right_triangle"
    by (simp_all add: right_triangle_def)
  have mode: "u_mode example_config = PAR_U_MODE_NORMALIZED_DISTANCE"
    by (simp add: example_config_def)
  let ?src = "[\<lparr>pos_x = 0, pos_y = 0\<rparr>, \<lparr>pos_x = 3, pos_y = 0\<rparr>, \<lparr>pos_x = 3, pos_y = 4 :: real\<rparr>]"
  let ?W = "interior_walk real_ops example_config True 0 3 ?src"
  have len: "length (dst_annotations ?W) = 4"
    using interior_walk_positions(2) [of 3 real_ops example_config True 0 ?src] by simp
  have raw: "map u_along_curve
      (dst_annotations ?W @ pair_annotations real_ops 7 e @ pair_annotations real_ops 7 e) =
      [0, 0, 3, 3, 7, 7, 7, 7]" for e
    by (simp add: right_triangle_us pair_annotations_def)
  have "\<exists>e. out_annotations (spine_drawn real_ops example_config right_triangle 0) =
      fix_u real_ops PAR_U_MODE_NORMALIZED_DISTANCE 10 3 4
        (dst_annotations ?W @ pair_annotations real_ops 7 e @ pair_annotations real_ops 7 e)"
    by (intro exI)
       (simp add: right_triangle_drawn draw_spine_closed mode right_triangle_distance
          right_triangle_sides real_ops_simps)
  then obtain e where
    out: "out_annotations (spine_drawn real_ops example_config right_triangle 0) =
      fix_u real_ops PAR_U_MODE_NORMALIZED_DISTANCE 10 3 4
        (dst_annotations ?W @ pair_annotations real_ops 7 e @ pair_annotations real_ops 7 e)"
    by blast
  have "map u_along_curve (out_annotations (spine_drawn real_ops example_config right_triangle 0)) =
      map (\<lambda>u. f_mul real_ops u (f_div real_ops (f_of_int real_ops 1) 10))
        [0, 0, 3, 3, 7, 7, 7, 7]"
    unfolding out raw [of e, symmetric]
    by (rule fix_u_normalized) (simp add: len length_pair_annotations)
  then have us: "map u_along_curve
      (out_annotations (spine_drawn real_ops example_config right_triangle 0)) =
      [0, 0, 3 / 10, 3 / 10, 7 / 10, 7 / 10, 7 / 10, 7 / 10]"
    by (simp add: real_ops_simps)
  have 1: "map u_along_curve (vertex_annotations m) =
      [0, 0, 3 / 10, 3 / 10, 7 / 10, 7 / 10, 7 / 10, 7 / 10]"
    using us by (simp add: draw_lines_single(2) [OF m one])
  have "spine_us m True (spines_read right_triangle) 0 =
      [0, 0, 3 / 10, 3 / 10, 7 / 10, 7 / 10, 7 / 10, 7 / 10]"
    using draw_lines_spine_us [OF m j] us c by simp
  then have 2: "Max (set (spine_us m True (spines_read right_triangle) 0)) = 7 / 10"
    and 3: "Min (set (spine_us m True (spines_read right_triangle) 0)) = 0"
    by simp_all
  show ?thesis
    by (rule exI [of _ ctx], rule exI [of _ m])
       (simp only: call m_def [symmetric] 1 2 3 simp_thms)
qed

section \<open>C5: the offset stored in the annotations\<close>

lemma rewrite_u_edge:
  "map spine_to_edge_x (rewrite_u g i as) = map spine_to_edge_x as"
  "map spine_to_edge_y (rewrite_u g i as) = map spine_to_edge_y as"
  by (induction g i as rule: rewrite_u.induct) simp_all

lemma fix_u_edge:
  "map spine_to_edge_x (fix_u ops mode d sl n as) = map spine_to_edge_x as"
  "map spine_to_edge_y (fix_u ops mode d sl n as) = map spine_to_edge_y as"
proof -
  have x: "map spine_to_edge_x (take k as @ rewrite_u g 0 (drop k as)) = map spine_to_edge_x as"
    for g k
    by (simp add: rewrite_u_edge flip: take_map drop_map)
  have y: "map spine_to_edge_y (take k as @ rewrite_u g 0 (drop k as)) = map spine_to_edge_y as"
    for g k
    by (simp add: rewrite_u_edge flip: take_map drop_map)
  show "map spine_to_edge_x (fix_u ops mode d sl n as) = map spine_to_edge_x as"
    by (cases mode) (simp_all only: fix_u_def par_streamlines_u_mode.case x)
  show "map spine_to_edge_y (fix_u ops mode d sl n as) = map spine_to_edge_y as"
    by (cases mode) (simp_all only: fix_u_def par_streamlines_u_mode.case y)
qed

lemma miter_offset_perpendicular:
  assumes "fst p * fst q + snd p * snd q = 0"
    and "(fst p + fst q) * (fst p + fst q) + (snd p + snd q) * (snd p + snd q) = 2"
  shows "miter_offset real_ops t p q =
           ((fst p + fst q) * (t / 2), (snd p + snd q) * (t / 2))"
proof -
  have th: "pi / 2 - pi / 2 / 2 = pi / 4" by simp
  have ex: "1 / sqrt 2 * (1 / 2 * t / (sqrt 2 / 2)) = t / 2"
    by (simp add: field_simps)
  show ?thesis
    unfolding miter_offset_def Let_def real_ops_simps id_apply of_int_numeral of_int_1 assms
      arccos_0 th sin_45 ex
    by (rule refl)
qed

lemma unit_square_ok:
  "spine_list_valid unit_square" "arrays_as_declared unit_square"
  "total_vertices (spines_closed unit_square) (spines_read unit_square) < 134217728"
  by (simp_all add: spine_list_valid_def arrays_as_declared_def spines_read_def
        unit_square_def total_vertices_def spine_vertex_count_def)

lemma unit_square_drawn:
  "spine_drawn ops cfg unit_square 0 = draw_spine ops cfg True 0 4 (vertices unit_square)"
  by (simp add: spine_drawn_def spine_Cons spines_read_def unit_square_def)

lemma unit_square_normals:
  "segment_normal real_ops (vertices unit_square ! 0) (vertices unit_square ! 1) = (0, 1)"
  "segment_normal real_ops (vertices unit_square ! 2) (vertices unit_square ! 3) = (0, - 1)"
  "segment_normal real_ops (vertices unit_square ! 3) (vertices unit_square ! 0) = (1, 0)"
  "segment_normal real_ops (vertices unit_square ! 0) (vertices unit_square ! Suc 0) = (0, 1)"
  by (simp_all add: unit_square_def segment_normal_def segment_length_def real_ops_def)

text \<open>
  Claim C5 says that the \<open>spine_to_edge\<close> annotation of every boundary vertex is the offset
  that produced it, the seam pair of a closed spine included: the even member of a pair is
  the spine vertex plus \<open>spine_to_edge\<close>. On the closed unit square with thickness 3 the
  even member of the seam pair, mesh vertex 8, lies at (3/2, 3/2), which is the first spine
  vertex (0, 0) plus the offset (3/2, 3/2) of the first pair (lines 276--279 and 427--428),
  but its annotation holds (3/2, -3/2): lines 435--438 store \<open>ex\<close>, \<open>ey\<close>, which are still
  the offset of the last vertex.
\<close>

theorem seam_annotation_evaluated:
  "\<exists>ctx m. par_streamlines_draw_lines real_ops granting () (fresh_context example_config)
         unit_square = Inr (ctx, ()) \<and> result ctx = m \<and>
       vertices unit_square ! 0 = \<lparr>pos_x = 0, pos_y = 0\<rparr> \<and>
       vertex_positions m ! 8 = \<lparr>pos_x = 3 / 2, pos_y = 3 / 2\<rparr> \<and>
       spine_to_edge_x (vertex_annotations m ! 8) = 3 / 2 \<and>
       spine_to_edge_y (vertex_annotations m ! 8) = - (3 / 2)"
proof -
  from draw_lines_fresh [OF unit_square_ok, of real_ops example_config] obtain ctx where
    call: "par_streamlines_draw_lines real_ops granting () (fresh_context example_config)
             unit_square = Inr (ctx, ())"
    by blast
  define m where "m = result ctx"
  note m = draw_lines_mesh(1,2) [OF call, unfolded fresh_context_simps, folded m_def]
  have one: "num_spines unit_square = 1" by (simp add: unit_square_def)
  have sl: "1 < unat (4 :: u16)" by simp
  have t: "thickness example_config = 3" by (simp add: example_config_def)
  let ?src = "vertices unit_square"
  let ?W = "interior_walk real_ops example_config True 0 4 ?src"
  note w = interior_walk_positions [OF sl, of real_ops example_config True 0 ?src]
  have pn: "pn ?W = (0, - 1)"
    using w(5) by (simp add: unit_square_normals)
  have first: "first_offset real_ops 3 True 4 ?src = (3 / 2, 3 / 2)"
    by (simp add: first_offset_def unit_square_normals miter_offset_perpendicular)
  have last: "miter_offset real_ops 3 (pn ?W) (segment_normal real_ops (?src ! 3) (?src ! 0)) =
      (3 / 2, - (3 / 2))"
    by (simp add: pn unit_square_normals miter_offset_perpendicular)
  have v0: "?src ! 0 = \<lparr>pos_x = 0, pos_y = 0\<rparr>" by (simp add: unit_square_def)
  have lp: "length (dst_positions ?W) = 6" and la: "length (dst_annotations ?W) = 6"
    using w(1,2) by simp_all
  have 1: "vertex_positions m ! 8 = \<lparr>pos_x = 3 / 2, pos_y = 3 / 2\<rparr>"
    by (simp add: draw_lines_single(1) [OF m one] unit_square_drawn draw_spine_closed [OF sl]
          t first nth_append lp length_pair_positions v0)
       (simp add: pair_positions_def real_ops_simps)
  have "\<exists>d. map spine_to_edge_x (vertex_annotations m) =
      map spine_to_edge_x (dst_annotations ?W @
        pair_annotations real_ops d (3 / 2, - (3 / 2)) @
        pair_annotations real_ops d (3 / 2, - (3 / 2))) \<and>
     map spine_to_edge_y (vertex_annotations m) =
      map spine_to_edge_y (dst_annotations ?W @
        pair_annotations real_ops d (3 / 2, - (3 / 2)) @
        pair_annotations real_ops d (3 / 2, - (3 / 2)))"
    by (intro exI)
       (simp add: draw_lines_single(2) [OF m one] unit_square_drawn draw_spine_closed [OF sl]
          t fix_u_edge last)
  then obtain d where
    ax: "map spine_to_edge_x (vertex_annotations m) =
      map spine_to_edge_x (dst_annotations ?W @
        pair_annotations real_ops d (3 / 2, - (3 / 2)) @
        pair_annotations real_ops d (3 / 2, - (3 / 2)))" and
    ay: "map spine_to_edge_y (vertex_annotations m) =
      map spine_to_edge_y (dst_annotations ?W @
        pair_annotations real_ops d (3 / 2, - (3 / 2)) @
        pair_annotations real_ops d (3 / 2, - (3 / 2)))"
    by blast
  have len: "length (vertex_annotations m) = 10"
    using draw_lines_Inr(8) [OF m]
    by (simp add: spines_read_def unit_square_def total_vertices_def spine_vertex_count_def)
  have "spine_to_edge_x (vertex_annotations m ! 8) = map spine_to_edge_x (vertex_annotations m) ! 8"
    using len by simp
  also have "\<dots> = 3 / 2"
    unfolding ax by (simp add: nth_append la length_pair_annotations pair_annotations_def)
  finally have 2: "spine_to_edge_x (vertex_annotations m ! 8) = 3 / 2" .
  have "spine_to_edge_y (vertex_annotations m ! 8) = map spine_to_edge_y (vertex_annotations m) ! 8"
    using len by simp
  also have "\<dots> = - (3 / 2)"
    unfolding ay by (simp add: nth_append la length_pair_annotations pair_annotations_def)
  finally have 3: "spine_to_edge_y (vertex_annotations m ! 8) = - (3 / 2)" .
  show ?thesis
    by (rule exI [of _ ctx], rule exI [of _ m])
       (simp only: call m_def [symmetric] v0 1 2 3 simp_thms)
qed

section \<open>C6: the segment fraction\<close>

lemma rewrite_u_nth:
  "even (length as) \<Longrightarrow> k < length as \<Longrightarrow>
   u_along_curve (rewrite_u g i as ! k) = g (i + k div 2) (u_along_curve (as ! k))"
proof (induction g i as arbitrary: k rule: rewrite_u.induct)
  case (1 g i a b rest)
  consider "k = 0" | "k = 1" | j where "k = Suc (Suc j)"
    by (cases k rule: nat.exhaust [case_product nat.exhaust]) (auto, metis nat.exhaust One_nat_def)
  then show ?case
  proof cases
    case 1
    then show ?thesis by simp
  next
    case 2
    then show ?thesis by simp
  next
    case 3
    have d: "Suc (Suc j) div 2 = Suc (j div 2)" by simp
    from "1.prems" 3 have "even (length rest)" and "j < length rest" by simp_all
    from "1.IH" [OF this] show ?thesis by (simp only: 3 d rewrite_u.simps nth_Cons_Suc add_Suc_right add_Suc)
  qed
qed simp_all

lemma fix_u_0: "fix_u ops mode d sl 0 as = as"
  by (cases mode) (simp_all add: fix_u_def)

lemma fix_u_all:
  assumes "length as = nverts * 2" and "k < length as"
  shows "u_along_curve (fix_u ops mode d sl nverts as ! k) =
           u_rule ops mode d sl (k div 2) (u_along_curve (as ! k))"
proof (cases "mode = PAR_U_MODE_DISTANCE")
  case True
  then show ?thesis by (simp add: fix_u_def u_rule_def)
next
  case False
  then have "fix_u ops mode d sl nverts as = rewrite_u (u_rule ops mode d sl) 0 as"
    using assms(1) by (cases mode) (simp_all add: fix_u_def)
  then show ?thesis using rewrite_u_nth [of as k "u_rule ops mode d sl" 0] assms by simp
qed

lemma nverts_no_wrap:
  fixes sl :: u16
  assumes "unat sl + (if cl then 1 else 0) < 65536"
  shows "unat (sl + (if cl then 1 else 0)) = unat sl + (if cl then 1 else 0)"
  using assms by (cases cl) (simp_all add: unat_word_ariths)

lemma draw_spine_fraction:
  assumes sl: "1 < unat sl" and mode: "u_mode cfg = PAR_U_MODE_SEGMENT_FRACTION"
    and nw: "unat sl + (if cl then 1 else 0) < 65536"
    and k: "k < spine_vertex_count cl sl"
  shows "u_along_curve (out_annotations (draw_spine ops cfg cl b sl src) ! k) =
           f_mul ops (f_div ops (f_of_int ops 1) (f_of_int ops (uint sl)))
             (f_of_int ops (int (k div 2)))"
proof -
  note w = interior_walk_positions [OF sl]
  have r: "u_rule ops PAR_U_MODE_SEGMENT_FRACTION d sl i u =
      f_mul ops (f_div ops (f_of_int ops 1) (f_of_int ops (uint sl))) (f_of_int ops (int i))"
    for d i u
    by (simp add: u_rule_def)
  show ?thesis
  proof (cases cl)
    case True
    let ?W = "interior_walk ops cfg True b sl src"
    let ?e = "miter_offset ops (thickness cfg) (pn ?W)
                (segment_normal ops (src ! (unat sl - 1)) (src ! 0))"
    let ?as = "dst_annotations ?W @ pair_annotations ops (distance_along_spine ?W) ?e @
                 pair_annotations ops (distance_along_spine ?W) ?e"
    let ?d = "f_add ops (distance_along_spine ?W) (segment_length ops (src ! 0) (src ! 1))"
    have nv: "unat (sl + 1) = unat sl + 1" using nverts_no_wrap [OF nw] True by simp
    have l: "length ?as = unat (sl + 1) * 2"
      using sl by (simp add: nv w(2) length_pair_annotations)
    have k': "k < length ?as" using k True l by (simp add: nv spine_vertex_count_def)
    have "out_annotations (draw_spine ops cfg True b sl src) =
        fix_u ops PAR_U_MODE_SEGMENT_FRACTION ?d sl (unat (sl + 1)) ?as"
      by (simp add: draw_spine_closed [OF sl] mode)
    then show ?thesis using fix_u_all [OF l k', of ops PAR_U_MODE_SEGMENT_FRACTION ?d sl] True
      by (simp only: r)
  next
    case False
    let ?W = "interior_walk ops cfg False b sl src"
    let ?e = "cap_offset ops (thickness cfg) (pn ?W)"
    let ?as = "dst_annotations ?W @ pair_annotations ops (distance_along_spine ?W) ?e"
    have l: "length ?as = unat sl * 2"
      using sl by (simp add: w(2) length_pair_annotations)
    have k': "k < length ?as" using k False l by (simp add: spine_vertex_count_def)
    have "out_annotations (draw_spine ops cfg False b sl src) =
        fix_u ops PAR_U_MODE_SEGMENT_FRACTION (distance_along_spine ?W) sl (unat sl) ?as"
      by (simp add: draw_spine_open [OF sl] mode)
    then show ?thesis
      using fix_u_all [OF l k', of ops PAR_U_MODE_SEGMENT_FRACTION "distance_along_spine ?W" sl]
        False
      by (simp only: r)
  qed
qed

lemma segment_fraction_u:
  assumes m: "mesh_sizing (spines_closed s) (unat (num_spines s)) (spine_lengths s) (0, 0) =
                 Inr (num_vertices m, num_triangles m)"
             "draw_spines ops cfg arrs s (num_vertices m) (num_triangles m) = Inr m" and j: "j < unat (num_spines s)"
    and mode: "u_mode cfg = PAR_U_MODE_SEGMENT_FRACTION"
    and nw: "unat (spines_read s ! j) + (if spines_closed s then 1 else 0) < 65536"
    and k: "k < spine_vertex_count (spines_closed s) (spines_read s ! j)"
  shows "u_along_curve (vertex_annotations m ! (spine_base (spines_closed s) (spines_read s) j + k)) =
           f_mul ops (f_div ops (f_of_int ops 1) (f_of_int ops (uint (spines_read s ! j))))
             (f_of_int ops (int (k div 2)))"
proof -
  note sl = draw_lines_long_spine [OF m j]
  from draw_lines_nth(2) [OF m j k] show ?thesis
    by (simp add: spine_drawn_def draw_spine_fraction [OF sl mode nw k])
qed

lemma interior_walk_second_pair:
  assumes "2 < unat sl"
  shows "u_along_curve (dst_annotations (interior_walk ops cfg cl b sl src) ! 2) =
           segment_length ops (src ! 0) (src ! 1)"
    and "u_along_curve (dst_annotations (interior_walk ops cfg cl b sl src) ! 3) =
           segment_length ops (src ! 0) (src ! 1)"
proof -
  let ?w0 = "first_vertex ops (thickness cfg) cl (unat sl) src"
  let ?w1 = "interior_step ops (thickness cfg) (wireframe cfg) b src ?w0"
  have st: "Suc (segment_index ?w0) < unat sl"
    using assms by (simp add: first_vertex_simps)
  have iw: "interior_walk ops cfg cl b sl src =
      interior_loop ops (thickness cfg) (wireframe cfg) b (unat sl) src ?w1"
    unfolding interior_walk_def by (rule interior_loop_step [OF st])
  from interior_loop_prefix [of ops "thickness cfg" "wireframe cfg" b "unat sl" src ?w1]
  obtain as where
    as: "dst_annotations (interior_walk ops cfg cl b sl src) = dst_annotations ?w1 @ as"
    unfolding iw by blast
  have l0: "length (dst_annotations ?w0) = 2"
    by (simp add: first_vertex_simps length_pair_annotations)
  have w1: "dst_annotations ?w1 = dst_annotations ?w0 @
      pair_annotations ops (segment_length ops (src ! 0) (src ! 1))
        (miter_offset ops (thickness cfg) (pn ?w0)
           (segment_normal ops (src ! segment_index ?w0) (src ! Suc (segment_index ?w0))))"
    by (simp add: interior_step_simps first_vertex_simps)
  show "u_along_curve (dst_annotations (interior_walk ops cfg cl b sl src) ! 2) =
           segment_length ops (src ! 0) (src ! 1)"
    unfolding as w1 using l0 by (simp add: nth_append pair_annotations_def)
  show "u_along_curve (dst_annotations (interior_walk ops cfg cl b sl src) ! 3) =
           segment_length ops (src ! 0) (src ! 1)"
    unfolding as w1 using l0 by (simp add: nth_append pair_annotations_def)
qed

lemma zigzag_ok:
  "spine_list_valid zigzag" "arrays_as_declared zigzag"
  "total_vertices (spines_closed zigzag) (spines_read zigzag) < 134217728"
  by (simp_all add: spine_list_valid_def arrays_as_declared_def spines_read_def
        zigzag_def total_vertices_def spine_vertex_count_def)

lemma zigzag_drawn:
  "spine_drawn ops cfg zigzag 0 = draw_spine ops cfg True 0 65535 (vertices zigzag)"
  by (simp add: spine_drawn_def spine_Cons spines_read_def zigzag_def)

lemma zigzag_first_segment:
  "segment_length real_ops (vertices zigzag ! 0) (vertices zigzag ! 1) = sqrt 2"
  by (simp add: zigzag_def segment_length_def real_ops_def)

text \<open>
  Claim C6 says that in \<open>SEGMENT_FRACTION\<close> mode the pair of index \<open>i\<close> of every spine has
  \<open>u = i / spine_length\<close>. On a closed spine of 65535 vertices the \<open>uint16_t\<close> \<open>nverts\<close>
  of line 467 is \<open>65535 + 1 = 0\<close>: the loop of lines 498--502 does not run and the \<open>u\<close>
  coordinates stay the distances written by the first pass. On the closed zigzag the pair
  of index 1 (mesh vertices 2 and 3) keeps the length \<open>sqrt 2\<close> of the first segment,
  where the claim gives 1 / 65535; and the loop of lines 468--472 writes no
  \<open>vertex_lengths\<close>.
\<close>

theorem segment_fraction_evaluated:
  "\<exists>ctx m. par_streamlines_draw_lines real_ops granting () (fresh_context fraction_config) zigzag =
         Inr (ctx, ()) \<and> result ctx = m \<and>
       length (vertex_annotations m) = 131072 \<and>
       u_along_curve (vertex_annotations m ! 2) = sqrt 2 \<and>
       u_along_curve (vertex_annotations m ! 3) = sqrt 2 \<and>
       vertex_lengths m = []"
proof -
  from draw_lines_fresh [OF zigzag_ok, of real_ops fraction_config] obtain ctx where
    call: "par_streamlines_draw_lines real_ops granting () (fresh_context fraction_config) zigzag =
             Inr (ctx, ())"
    by blast
  define m where "m = result ctx"
  note m = draw_lines_mesh(1,2) [OF call, unfolded fresh_context_simps, folded m_def]
  have one: "num_spines zigzag = 1" by (simp add: zigzag_def)
  have sl: "1 < unat (65535 :: u16)" and sl2: "2 < unat (65535 :: u16)" by simp_all
  let ?src = "vertices zigzag"
  let ?W = "interior_walk real_ops fraction_config True 0 65535 ?src"
  have wrap: "unat (65535 + 1 :: u16) = 0" by simp
  have lw: "length (dst_annotations ?W) = 131068"
    using interior_walk_positions(2) [OF sl, of real_ops fraction_config True 0 ?src] by simp
  have "\<exists>e d. out_annotations (spine_drawn real_ops fraction_config zigzag 0) =
      dst_annotations ?W @ pair_annotations real_ops d e @ pair_annotations real_ops d e"
    by (intro exI) (simp add: zigzag_drawn draw_spine_closed [OF sl] wrap fix_u_0)
  then obtain e d where
    out: "vertex_annotations m =
      dst_annotations ?W @ pair_annotations real_ops d e @ pair_annotations real_ops d e"
    unfolding draw_lines_single(2) [OF m one] by blast
  have 1: "length (vertex_annotations m) = 131072"
    by (simp add: out lw length_pair_annotations)
  have w2: "u_along_curve (dst_annotations ?W ! 2) = sqrt 2"
    unfolding interior_walk_second_pair(1) [OF sl2] by (rule zigzag_first_segment)
  have w3: "u_along_curve (dst_annotations ?W ! 3) = sqrt 2"
    unfolding interior_walk_second_pair(2) [OF sl2] by (rule zigzag_first_segment)
  have 2: "u_along_curve (vertex_annotations m ! 2) = sqrt 2"
    using w2 by (simp add: out nth_append lw)
  have 3: "u_along_curve (vertex_annotations m ! 3) = sqrt 2"
    using w3 by (simp add: out nth_append lw)
  have 4: "vertex_lengths m = []"
    by (simp add: draw_lines_single(3) [OF m one] zigzag_drawn draw_spine_closed [OF sl] wrap)
  show ?thesis
    by (rule exI [of _ ctx], rule exI [of _ m])
       (simp only: call m_def [symmetric] 1 2 3 4 simp_thms)
qed

end
